theory Spec2Isabelle
  imports Complex_Main "HOL-Library.AList"
begin

section \<open>Python strings\<close>

text \<open>
  A Python \<open>str\<close> is modelled as a \<open>string\<close>, each \<open>char\<close> standing for the code point of
  the same number (code points below 256). The helpers below are the \<open>str\<close> methods that
  the two scripts call.
\<close>

definition code :: "char \<Rightarrow> nat" where
  "code c = of_char c"

definition isspace :: "char \<Rightarrow> bool" where
  \<comment> \<open>the white space of \<open>str.strip()\<close> and of \<open>\s\<close>: TAB LF VT FF CR, FS GS RS US, SPACE,
      NEL and NBSP\<close>
  "isspace c = ((9 \<le> code c \<and> code c \<le> 13) \<or> (28 \<le> code c \<and> code c \<le> 32)
                 \<or> code c = 133 \<or> code c = 160)"

definition is_digit :: "char \<Rightarrow> bool" where
  "is_digit c = (48 \<le> code c \<and> code c \<le> 57)"

definition is_upper :: "char \<Rightarrow> bool" where
  "is_upper c = (65 \<le> code c \<and> code c \<le> 90)"

definition is_lower :: "char \<Rightarrow> bool" where
  "is_lower c = (97 \<le> code c \<and> code c \<le> 122)"

definition lower_chr :: "char \<Rightarrow> char" where
  \<comment> \<open>\<open>str.lower()\<close> on one character: A-Z, and the capital letters of Latin-1\<close>
  "lower_chr c = (if is_upper c \<or> (192 \<le> code c \<and> code c \<le> 222 \<and> code c \<noteq> 215)
                  then char_of (code c + 32) else c)"

definition lower :: "string \<Rightarrow> string" where
  "lower s = map lower_chr s"

definition lstrip :: "string \<Rightarrow> string" where
  "lstrip s = dropWhile isspace s"

definition rstrip :: "string \<Rightarrow> string" where
  "rstrip s = rev (dropWhile isspace (rev s))"

definition strip :: "string \<Rightarrow> string" where
  "strip s = rstrip (lstrip s)"

definition rstrip_chr :: "char \<Rightarrow> string \<Rightarrow> string" where
  \<comment> \<open>\<open>s.rstrip(c)\<close> for a one-character argument\<close>
  "rstrip_chr c s = rev (dropWhile (\<lambda>x. x = c) (rev s))"

definition strip_chr :: "char \<Rightarrow> string \<Rightarrow> string" where
  \<comment> \<open>\<open>s.strip(c)\<close> for a one-character argument\<close>
  "strip_chr c s = rstrip_chr c (dropWhile (\<lambda>x. x = c) s)"

definition startswith :: "string \<Rightarrow> string \<Rightarrow> bool" where
  "startswith s p = (take (length p) s = p)"

definition endswith :: "string \<Rightarrow> string \<Rightarrow> bool" where
  "endswith s p = (length p \<le> length s \<and> drop (length s - length p) s = p)"

fun contains :: "string \<Rightarrow> string \<Rightarrow> bool" where
  \<comment> \<open>\<open>p in s\<close>\<close>
  "contains [] p = (p = [])"
| "contains (c # cs) p = (startswith (c # cs) p \<or> contains cs p)"

definition replace_chr :: "char \<Rightarrow> string \<Rightarrow> string \<Rightarrow> string" where
  \<comment> \<open>\<open>s.replace(c, r)\<close> for a one-character \<open>c\<close>\<close>
  "replace_chr c r s = concat (map (\<lambda>x. if x = c then r else [x]) s)"

definition split1 :: "char \<Rightarrow> string \<Rightarrow> string list" where
  \<comment> \<open>\<open>s.split(c, 1)\<close>: at most one split, at the first \<open>c\<close>\<close>
  "split1 c s = (if c \<in> set s
                 then [takeWhile (\<lambda>x. x \<noteq> c) s, tl (dropWhile (\<lambda>x. x \<noteq> c) s)]
                 else [s])"

definition slice_3_m3 :: "string \<Rightarrow> string" where
  \<comment> \<open>\<open>s[3:-3]\<close>\<close>
  "slice_3_m3 s = drop 3 (take (length s - 3) s)"

section \<open>The extractor: key normalisation\<close>

function sub_runs :: "(char \<Rightarrow> bool) \<Rightarrow> string \<Rightarrow> string \<Rightarrow> string" where
  \<comment> \<open>\<open>re.sub('[...]+', r, s)\<close> for a character class: every maximal run of characters of
      the class is replaced by \<open>r\<close>\<close>
  "sub_runs p r [] = []"
| "sub_runs p r (c # cs) =
     (if p c then r @ sub_runs p r (dropWhile p cs) else c # sub_runs p r cs)"
  by pat_completeness auto
termination
  by (relation "measure (\<lambda>(p, r, s). length s)")
     (auto simp: length_dropWhile_le less_Suc_eq_le)

definition key_char :: "char \<Rightarrow> bool" where
  \<comment> \<open>the class \<open>[A-Za-z0-9_\.\-]\<close>\<close>
  "key_char c = (is_upper c \<or> is_lower c \<or> is_digit c
                  \<or> c = CHR ''_'' \<or> c = CHR ''.'' \<or> c = CHR ''-'')"

definition normalize_key :: "string \<Rightarrow> string" where
  "normalize_key k =
     (let k1 = strip k;
          k2 = replace_chr (CHR '')'') [] (replace_chr (CHR ''('') [] k1);
          k3 = replace_chr (CHR ''%'') ''pct'' k2;
          k4 = replace_chr (CHR ''/'') ''_'' k3;
          k5 = sub_runs (\<lambda>c. isspace c \<or> c = CHR '':'') ''_'' k4;
          k6 = filter key_char k5
      in lower k6)"

definition normal_char :: "char \<Rightarrow> bool" where
  \<comment> \<open>the characters of a key in normalised form: \<open>[a-z0-9_.-]\<close>\<close>
  "normal_char c = (is_lower c \<or> is_digit c
                     \<or> c = CHR ''_'' \<or> c = CHR ''.'' \<or> c = CHR ''-'')"

section \<open>The extractor: describing and emitting a metric\<close>

definition desc_map :: "(string \<times> string) list" where
  "desc_map =
    [(''job_name'', ''fio job name''),
     (''rw'', ''workload type (read/write/randread/randwrite/rw)''),
     (''ioengine'', ''fio ioengine used''),
     (''iodepth'', ''queue depth per job''),
     (''bs_r'', ''read block size range''),
     (''bs_w'', ''write block size range''),
     (''bs_t'', ''total block size range''),
     (''groupid'', ''fio group id''),
     (''jobs'', ''number of jobs (threads/processes)''),
     (''err'', ''fio job error code''),
     (''pid'', ''fio job pid''),
     (''timestamp'', ''fio-reported wall-clock timestamp''),
     (''fio_version'', ''fio version''),
     (''layout_files'', ''number of files laid out''),
     (''layout_size'', ''file size used for layout''),
     (''read_iops'', ''read IOPS (fio)''),
     (''read_bw'', ''read bandwidth (fio)''),
     (''read_io'', ''total read bytes transferred''),
     (''read_run'', ''read run duration (msec range)''),
     (''write_iops'', ''write IOPS (fio)''),
     (''write_bw'', ''write bandwidth (fio)''),
     (''write_io'', ''total write bytes transferred''),
     (''write_run'', ''write run duration (msec range)''),
     (''slat_min'', ''submission latency min (ns)''),
     (''slat_max'', ''submission latency max (ns)''),
     (''slat_avg'', ''submission latency avg (ns)''),
     (''slat_stdev'', ''submission latency stdev (ns)''),
     (''clat_min'', ''completion latency min (usec)''),
     (''clat_max'', ''completion latency max (usec)''),
     (''clat_avg'', ''completion latency avg (usec)''),
     (''clat_stdev'', ''completion latency stdev (usec)''),
     (''lat_usec_min'', ''total latency min (usec)''),
     (''lat_usec_max'', ''total latency max (usec)''),
     (''lat_usec_avg'', ''total latency avg (usec)''),
     (''lat_usec_stdev'', ''total latency stdev (usec)''),
     (''bw_min'', ''bandwidth sample min''),
     (''bw_max'', ''bandwidth sample max''),
     (''bw_per'', ''bandwidth sample coverage percent''),
     (''bw_avg'', ''bandwidth sample avg''),
     (''bw_stdev'', ''bandwidth sample stdev''),
     (''bw_samples'', ''bandwidth samples count''),
     (''iops_min'', ''iops sample min''),
     (''iops_max'', ''iops sample max''),
     (''iops_avg'', ''iops sample avg''),
     (''iops_stdev'', ''iops sample stdev''),
     (''iops_samples'', ''iops samples count''),
     (''cpu_usr'', ''cpu user percent''),
     (''cpu_sys'', ''cpu system percent''),
     (''cpu_ctx'', ''context switches''),
     (''cpu_majf'', ''major faults''),
     (''cpu_minf'', ''minor faults''),
     (''iodepth_dist_1'', ''percent time at queue depth 1''),
     (''iodepth_dist_2'', ''percent time at queue depth 2''),
     (''iodepth_dist_4'', ''percent time at queue depth 4''),
     (''iodepth_dist_8'', ''percent time at queue depth 8''),
     (''iodepth_dist_16'', ''percent time at queue depth 16''),
     (''iodepth_dist_32'', ''percent time at queue depth 32''),
     (''iodepth_dist_>=64'', ''percent time at queue depth >=64''),
     (''submit_0'', ''submit queue depth bucket 0 percent''),
     (''submit_4'', ''submit queue depth bucket 4 percent''),
     (''submit_8'', ''submit queue depth bucket 8 percent''),
     (''submit_16'', ''submit queue depth bucket 16 percent''),
     (''submit_32'', ''submit queue depth bucket 32 percent''),
     (''submit_64'', ''submit queue depth bucket 64 percent''),
     (''submit_>=64'', ''submit queue depth bucket >=64 percent''),
     (''complete_0'', ''complete queue depth bucket 0 percent''),
     (''complete_4'', ''complete queue depth bucket 4 percent''),
     (''complete_8'', ''complete queue depth bucket 8 percent''),
     (''complete_16'', ''complete queue depth bucket 16 percent''),
     (''complete_32'', ''complete queue depth bucket 32 percent''),
     (''complete_64'', ''complete queue depth bucket 64 percent''),
     (''complete_>=64'', ''complete queue depth bucket >=64 percent''),
     (''issued_total'', ''issued rwts totals (r,w,trim,sync)''),
     (''issued_short'', ''short ios (r,w,trim,sync)''),
     (''issued_dropped'', ''dropped ios (r,w,trim,sync)''),
     (''latency_cfg_target'', ''latency target config''),
     (''latency_cfg_window'', ''latency window config''),
     (''latency_cfg_percentile'', ''latency percentile target''),
     (''latency_cfg_depth'', ''latency depth config''),
     (''run_read_bw'', ''run summary read bandwidth''),
     (''run_read_io'', ''run summary read bytes''),
     (''run_read_run'', ''run summary read duration''),
     (''run_write_bw'', ''run summary write bandwidth''),
     (''run_write_io'', ''run summary write bytes''),
     (''run_write_run'', ''run summary write duration'')]"

definition describe :: "string \<Rightarrow> string option" where
  "describe key =
     (if startswith key ''clat_pct_'' then Some ''completion latency percentile (usec)''
      else if startswith key ''lat_usecpct_''
        then Some ''percent of IOs in latency bucket (usec)''
      else if startswith key ''lat_msecpct_''
        then Some ''percent of IOs in latency bucket (msec)''
      else if startswith key ''disk_'' then Some ''per-disk fio disk stats''
      else if startswith key ''run_read_'' then Some ''run summary (read)''
      else if startswith key ''run_write_'' then Some ''run summary (write)''
      else map_of desc_map key)"

definition emit_line :: "string \<Rightarrow> string \<Rightarrow> string" where
  \<comment> \<open>the line that \<open>emit\<close> appends\<close>
  "emit_line k v =
     (case describe k of
        Some desc \<Rightarrow>
          if desc \<noteq> [] then k @ '' = '' @ v @ [CHR 0x09] @ ''# '' @ desc
          else k @ '' = '' @ v
      | None \<Rightarrow> k @ '' = '' @ v)"

definition emit :: "string list \<Rightarrow> string \<Rightarrow> string \<Rightarrow> string list" where
  "emit out_list k v = out_list @ [emit_line k v]"

section \<open>Regular expressions\<close>

text \<open>
  The patterns of the two scripts are written as terms of \<open>rx\<close> and run by a backtracking
  matcher that tries the alternatives in the order of Python's \<open>re\<close> module: a greedy
  repetition first takes one more iteration, an option first takes its operand.
  \<open>rx_run r i s g\<close> gives every way in which \<open>r\<close> matches a prefix of \<open>s\<close>, the text at
  position \<open>i\<close> of the subject, in the order in which backtracking finds them: each with the
  position after the match, the rest of the text and the groups captured. None of the
  patterns repeats an operand that can match the empty string; such an iteration gives
  no match here.
\<close>

datatype rx =
    Cls "char \<Rightarrow> bool"
  | Eps
  | Bol
  | Eol
  | Seq rx rx
  | Alt rx rx
  | Star rx
  | Grp nat rx

type_synonym groups = "(nat \<times> string) list"

fun rx_run :: "rx \<Rightarrow> nat \<Rightarrow> string \<Rightarrow> groups \<Rightarrow> (nat \<times> string \<times> groups) list" where
  "rx_run (Cls p) i s g =
     (case s of [] \<Rightarrow> [] | c # cs \<Rightarrow> if p c then [(Suc i, cs, g)] else [])"
| "rx_run Eps i s g = [(i, s, g)]"
| "rx_run Bol i s g = (if i = 0 then [(i, s, g)] else [])"
| "rx_run Eol i s g = (if s = [] \<or> s = [CHR 0x0A] then [(i, s, g)] else [])"
| "rx_run (Seq a b) i s g = concat (map (\<lambda>(j, t, h). rx_run b j t h) (rx_run a i s g))"
| "rx_run (Alt a b) i s g = rx_run a i s g @ rx_run b i s g"
| "rx_run (Star a) i s g =
     concat (map (\<lambda>(j, t, h). if length t < length s then rx_run (Star a) j t h else [])
                 (rx_run a i s g)) @ [(i, s, g)]"
| "rx_run (Grp n a) i s g =
     map (\<lambda>(j, t, h). (j, t, AList.update n (take (j - i) s) h)) (rx_run a i s g)"

definition Plus :: "rx \<Rightarrow> rx" where
  "Plus a = Seq a (Star a)"

definition Opt :: "rx \<Rightarrow> rx" where
  "Opt a = Alt a Eps"

definition Chr :: "char \<Rightarrow> rx" where
  "Chr c = Cls (\<lambda>x. x = c)"

definition Chr_i :: "char \<Rightarrow> rx" where
  \<comment> \<open>a letter under \<open>re.I\<close>\<close>
  "Chr_i c = Cls (\<lambda>x. lower_chr x = lower_chr c)"

fun Lit :: "string \<Rightarrow> rx" where
  "Lit [] = Eps"
| "Lit (c # cs) = Seq (Chr c) (Lit cs)"

fun Lit_i :: "string \<Rightarrow> rx" where
  "Lit_i [] = Eps"
| "Lit_i (c # cs) = Seq (Chr_i c) (Lit_i cs)"

definition Dot :: rx where
  \<comment> \<open>\<open>.\<close>: any character but the line feed\<close>
  "Dot = Cls (\<lambda>x. x \<noteq> CHR 0x0A)"

definition group :: "groups \<Rightarrow> nat \<Rightarrow> string" where
  \<comment> \<open>\<open>m.group(n)\<close> of a group that took part in the match\<close>
  "group g n = (case map_of g n of Some x \<Rightarrow> x | None \<Rightarrow> [])"

definition rx_match :: "rx \<Rightarrow> string \<Rightarrow> groups option" where
  \<comment> \<open>\<open>pattern.match(s)\<close>: the first match at the start of \<open>s\<close>\<close>
  "rx_match r s = (case rx_run r 0 s [] of [] \<Rightarrow> None | (j, t, g) # _ \<Rightarrow> Some g)"

fun rx_search_from :: "rx \<Rightarrow> nat \<Rightarrow> string \<Rightarrow> (string \<times> nat \<times> groups) option" where
  \<comment> \<open>the leftmost match at or after position \<open>i\<close>: the text after it, its end, its groups\<close>
  "rx_search_from r i s =
     (case rx_run r i s [] of
        (j, t, g) # _ \<Rightarrow> Some (t, j, g)
      | [] \<Rightarrow> (case s of [] \<Rightarrow> None | c # cs \<Rightarrow> rx_search_from r (Suc i) cs))"

definition rx_search :: "rx \<Rightarrow> string \<Rightarrow> groups option" where
  \<comment> \<open>\<open>pattern.search(s)\<close>\<close>
  "rx_search r s = map_option (\<lambda>(t, j, g). g) (rx_search_from r 0 s)"

function rx_finditer_from :: "rx \<Rightarrow> nat \<Rightarrow> string \<Rightarrow> groups list" where
  "rx_finditer_from r i s =
     (case rx_search_from r i s of
        None \<Rightarrow> []
      | Some (t, j, g) \<Rightarrow> g # (if length t < length s then rx_finditer_from r j t else []))"
  by pat_completeness auto
termination
  by (relation "measure (\<lambda>(r, i, s). length s)") auto

definition rx_finditer :: "rx \<Rightarrow> string \<Rightarrow> groups list" where
  \<comment> \<open>\<open>pattern.finditer(s)\<close>, for a pattern that matches no empty string\<close>
  "rx_finditer r s = rx_finditer_from r 0 s"

definition int_of_digits :: "string \<Rightarrow> int" where
  \<comment> \<open>\<open>int(s)\<close> for a string of decimal digits (of any length: the limit that recent
      versions of Python put on the number of digits is not modelled)\<close>
  "int_of_digits s = foldl (\<lambda>a c. 10 * a + int (code c - 48)) 0 s"

section \<open>The splitter of consolidated files\<close>

record Record =
  run :: int
  filename :: string
  job_name :: "string option"
  metrics :: "(string \<times> string) list"

definition parse_key_val :: "string \<Rightarrow> (string \<times> string) option" where
  "parse_key_val line =
     (if CHR ''='' \<notin> set line then None
      else (case split1 (CHR ''='') line of
              a # b # _ \<Rightarrow>
                (let key = strip a;
                     val = strip b;
                     val = (if CHR ''#'' \<in> set val
                            then strip (hd (split1 (CHR ''#'') val)) else val)
                 in Some (key, val))
            | _ \<Rightarrow> None))"

text \<open>
  The local variables of \<open>parse_consolidated\<close>: the records appended so far and the block
  in progress.
\<close>

record splitter =
  records :: "Record list"
  run_num :: "int option"
  current_file :: "string option"
  current_metrics :: "(string \<times> string) list"
  cur_job_name :: "string option"

definition flush :: "splitter \<Rightarrow> splitter" where
  "flush st =
     (let recs = (case (run_num st, current_file st) of
                    (Some r, Some f) \<Rightarrow>
                      if current_metrics st \<noteq> []
                      then records st @ [\<lparr>run = r, filename = f, job_name = cur_job_name st,
                                          metrics = current_metrics st\<rparr>]
                      else records st
                  | _ \<Rightarrow> records st)
      in st\<lparr>records := recs, current_metrics := [], cur_job_name := None,
              current_file := None\<rparr>)"

definition re_run_number :: rx where
  \<comment> \<open>\<open>RUN #([0-9]+)\<close>\<close>
  "re_run_number = Seq (Lit ''RUN #'') (Grp 1 (Plus (Cls is_digit)))"

definition is_run_marker :: "string \<Rightarrow> bool" where
  "is_run_marker line = startswith line ''~~~~~~~ RUN #''"

definition is_file_marker :: "string \<Rightarrow> bool" where
  "is_file_marker line = (startswith line ''-- '' \<and> endswith line '' --'')"

definition split_line :: "splitter \<Rightarrow> string \<Rightarrow> splitter" where
  \<comment> \<open>the body of the loop over the lines of the file\<close>
  "split_line st raw =
     (let line = strip_chr (CHR 0x0A) raw in
      if is_run_marker line then
        (let st = flush st in
         case rx_search re_run_number line of
           Some g \<Rightarrow> st\<lparr>run_num := Some (int_of_digits (group g 1))\<rparr>
         | None \<Rightarrow> st)
      else if is_file_marker line then
        (flush st)\<lparr>current_file := Some (strip (slice_3_m3 line))\<rparr>
      else
        (case parse_key_val line of
           Some (k, v) \<Rightarrow>
             (let st = st\<lparr>current_metrics := AList.update k v (current_metrics st)\<rparr>
              in if k = ''job_name'' then st\<lparr>cur_job_name := Some v\<rparr> else st)
         | None \<Rightarrow> st))"

definition splitter_init :: splitter where
  "splitter_init = \<lparr>records = [], run_num = None, current_file = None,
                      current_metrics = [], cur_job_name = None\<rparr>"

definition parse_consolidated :: "string list \<Rightarrow> Record list" where
  \<comment> \<open>the argument is the sequence of lines that iterating over the open file gives\<close>
  "parse_consolidated raws = records (flush (foldl split_line splitter_init raws))"

section \<open>Numbers\<close>

text \<open>
  A Python \<open>float\<close> is modelled as the rational number that it stands for: the rounding to
  binary floating point, overflow, and the values \<open>inf\<close> and \<open>nan\<close> are not modelled. What
  an operation raises is the \<open>Inl\<close> of its result. \<open>NonFinite\<close> is no exception of Python:
  it marks the computations in which \<open>float()\<close> returns \<open>inf\<close> or \<open>nan\<close>, which the model
  does not follow.
\<close>

datatype error = ValueError | IndexError | ZeroDivisionError | NonFinite

definition and_then :: "error + 'a \<Rightarrow> ('a \<Rightarrow> error + 'b) \<Rightarrow> error + 'b" where
  \<comment> \<open>the statements after one that may raise\<close>
  "and_then r f = (case r of Inl e \<Rightarrow> Inl e | Inr x \<Rightarrow> f x)"

definition GB_DEC :: rat where
  "GB_DEC = 1000000000"

definition py_div :: "rat \<Rightarrow> rat \<Rightarrow> error + rat" where
  \<comment> \<open>\<open>x / y\<close>\<close>
  "py_div x y = (if y = 0 then Inl ZeroDivisionError else Inr (x / y))"

fun underscores_ok :: "char \<Rightarrow> string \<Rightarrow> bool" where
  \<comment> \<open>in a numeric literal, an underscore stands between two digits; the first argument is
      the character before\<close>
  "underscores_ok prev [] = (prev \<noteq> CHR ''_'')"
| "underscores_ok prev (c # cs) =
     ((if c = CHR ''_'' then is_digit prev
       else if prev = CHR ''_'' then is_digit c else True)
      \<and> underscores_ok c cs)"

definition take_sign :: "string \<Rightarrow> rat \<times> string" where
  "take_sign s =
     (case s of
        c # cs \<Rightarrow> if c = CHR ''+'' then (1, cs) else if c = CHR ''-'' then (- 1, cs) else (1, s)
      | [] \<Rightarrow> (1, s))"

definition pow10 :: "int \<Rightarrow> rat" where
  "pow10 e = (if 0 \<le> e then 10 ^ nat e else 1 / 10 ^ nat (- e))"

definition float_exponent :: "string \<Rightarrow> int option" where
  \<comment> \<open>what follows the mantissa: nothing, or \<open>e\<close> or \<open>E\<close>, an optional sign and digits\<close>
  "float_exponent s =
     (case s of
        [] \<Rightarrow> Some 0
      | c # cs \<Rightarrow>
          if c = CHR ''e'' \<or> c = CHR ''E'' then
            (let (sg, ds) = take_sign cs in
             if ds \<noteq> [] \<and> list_all is_digit ds
             then Some ((if sg < 0 then - 1 else 1) * int_of_digits ds) else None)
          else None)"

definition py_float :: "string \<Rightarrow> error + rat" where
  \<comment> \<open>\<open>float(s)\<close> for a string\<close>
  "py_float s =
     (let s1 = strip s in
      if \<not> underscores_ok (CHR 0x00) s1 then Inl ValueError
      else
        (let (sg, r) = take_sign (filter (\<lambda>c. c \<noteq> CHR ''_'') s1) in
         if lower r = ''inf'' \<or> lower r = ''infinity'' \<or> lower r = ''nan'' then Inl NonFinite
         else
           (let ip = takeWhile is_digit r;
                r1 = dropWhile is_digit r;
                (fp, r2) = (case r1 of
                              c # cs \<Rightarrow>
                                if c = CHR ''.''
                                then (takeWhile is_digit cs, dropWhile is_digit cs)
                                else ([], r1)
                            | [] \<Rightarrow> ([], r1))
            in if ip = [] \<and> fp = [] then Inl ValueError
               else (case float_exponent r2 of
                       None \<Rightarrow> Inl ValueError
                     | Some e \<Rightarrow>
                         Inr (sg * of_int (int_of_digits (ip @ fp))
                              * pow10 (e - int (length fp)))))))"

definition parse_numeric :: "string \<Rightarrow> error + rat option" where
  "parse_numeric val =
     (case py_float val of
        Inr x \<Rightarrow> Inr (Some x)
      | Inl e \<Rightarrow> if e = ValueError then Inr None else Inl e)"

section \<open>The unit normaliser\<close>

definition num_char :: "char \<Rightarrow> bool" where
  \<comment> \<open>the class \<open>[0-9.]\<close>\<close>
  "num_char c = (is_digit c \<or> c = CHR ''.'')"

definition size_pat :: rx where
  \<comment> \<open>\<open>([0-9.]+)\s*([KMGTP]?i?B)/s\<close> with \<open>re.I\<close>\<close>
  "size_pat =
     Seq (Grp 1 (Plus (Cls num_char)))
       (Seq (Star (Cls isspace))
          (Seq (Grp 2 (Seq (Opt (Cls (\<lambda>c. lower_chr c \<in> set ''kmgtp'')))
                        (Seq (Opt (Chr_i (CHR ''i''))) (Chr_i (CHR ''B'')))))
             (Seq (Chr (CHR ''/'')) (Chr_i (CHR ''s'')))))"

definition iops_pat :: rx where
  \<comment> \<open>\<open>([0-9.]+)\s*([kKmM]?)\<close>\<close>
  "iops_pat =
     Seq (Grp 1 (Plus (Cls num_char)))
       (Seq (Star (Cls isspace)) (Grp 2 (Opt (Cls (\<lambda>c. c \<in> set ''kKmM'')))))"

definition bw_factor :: "string \<Rightarrow> rat" where
  \<comment> \<open>the chain of tests on the unit in \<open>bw_to_gbps\<close>\<close>
  "bw_factor unit =
     (if startswith unit ''kib'' then 1024
      else if startswith unit ''kb'' then 1000
      else if startswith unit ''mib'' then 1024 ^ 2
      else if startswith unit ''mb'' then 1000000
      else if startswith unit ''gib'' then 1024 ^ 3
      else if startswith unit ''gb'' then 1000000000
      else if startswith unit ''tib'' then 1024 ^ 4
      else if startswith unit ''tb'' then 1000000000000
      else 1)"

definition bw_to_gbps :: "string \<Rightarrow> error + rat option" where
  "bw_to_gbps val =
     (case rx_search size_pat val of
        None \<Rightarrow> Inr None
      | Some m \<Rightarrow>
          (case py_float (group m 1) of
             Inl e \<Rightarrow> Inl e
           | Inr num \<Rightarrow>
               (let unit = lower (group m 2);
                    factor = bw_factor unit;
                    bytes_per_sec = num * factor
                in Inr (Some (bytes_per_sec / GB_DEC)))))"

definition iops_to_k :: "string \<Rightarrow> error + rat option" where
  "iops_to_k val =
     (case rx_match iops_pat (strip val) of
        None \<Rightarrow> Inr None
      | Some m \<Rightarrow>
          (case py_float (group m 1) of
             Inl e \<Rightarrow> Inl e
           | Inr num \<Rightarrow>
               (let suffix = lower (group m 2);
                    num = (if suffix = ''k'' then num * 1000
                           else if suffix = ''m'' then num * 1000000 else num)
                in Inr (Some (num / 1000)))))"

section \<open>The derivation engine\<close>

definition derive_latency_ms :: "rat option \<Rightarrow> rat option \<Rightarrow> error + rat option" where
  "derive_latency_ms iops_k iodepth =
     (case (iops_k, iodepth) of
        (Some ik, Some depth) \<Rightarrow>
          (let iops = ik * 1000 in
           if iops \<le> 0 then Inr None
           else (case py_div depth iops of
                   Inl e \<Rightarrow> Inl e
                 | Inr q \<Rightarrow> Inr (Some (q * 1000))))
      | _ \<Rightarrow> Inr None)"

fun first_available :: "(string \<times> string) list \<Rightarrow> string list \<Rightarrow> string option" where
  "first_available m [] = None"
| "first_available m (k # keys) =
     (case map_of m k of Some v \<Rightarrow> Some v | None \<Rightarrow> first_available m keys)"

definition truthy :: "string option \<Rightarrow> bool" where
  \<comment> \<open>\<open>if x:\<close> for an optional string: neither \<open>None\<close> nor empty\<close>
  "truthy x = (case x of None \<Rightarrow> False | Some s \<Rightarrow> s \<noteq> [])"

text \<open>
  The fields of the summary, before \<open>summarize_record\<close> formats the numbers to a fixed number
  of decimals (the formatting is not modelled).
\<close>

record summary =
  s_run :: int
  s_file :: string
  s_job_name :: "string option"
  s_iodepth :: "rat option"
  s_throughput_GBps :: "rat option"
  s_iops_k :: "rat option"
  s_derived_latency_ms :: "rat option"
  s_clat_avg_ms :: "rat option"
  s_bw_source :: "string option"
  s_iops_source :: "string option"

definition float_or_none :: "string \<Rightarrow> (rat \<Rightarrow> rat) \<Rightarrow> error + rat option" where
  \<comment> \<open>\<open>try: x = f(float(s))\<close>, \<open>except ValueError: x = None\<close>\<close>
  "float_or_none s f =
     (case py_float s of
        Inr x \<Rightarrow> Inr (Some (f x))
      | Inl e \<Rightarrow> if e = ValueError then Inr None else Inl e)"

definition str_of :: "string option \<Rightarrow> string" where
  "str_of x = (case x of Some s \<Rightarrow> s | None \<Rightarrow> [])"

definition summarize_record :: "Record \<Rightarrow> error + summary" where
  "summarize_record rec =
     (let m = metrics rec;
          iodepth_val = first_available m [''iodepth''];
          bw_raw = first_available m [''run_read_bw'', ''run_write_bw'', ''read_bw'', ''write_bw''];
          iops_raw = first_available m [''read_iops'', ''write_iops''];
          clat_avg = map_of m ''clat_avg''
      in
      and_then (if truthy iodepth_val then parse_numeric (str_of iodepth_val) else Inr None)
        (\<lambda>iodepth.
      and_then (if truthy bw_raw then bw_to_gbps (str_of bw_raw) else Inr None)
        (\<lambda>bw_gbps.
      and_then (case (bw_gbps, map_of m ''bw_avg'') of
                  (None, Some a) \<Rightarrow> float_or_none a (\<lambda>kib_s. kib_s * 1024 / GB_DEC)
                | _ \<Rightarrow> Inr bw_gbps)
        (\<lambda>bw_gbps.
      and_then (if truthy iops_raw then iops_to_k (str_of iops_raw) else Inr None)
        (\<lambda>iops_k.
      and_then (case (iops_k, map_of m ''iops_avg'') of
                  (None, Some a) \<Rightarrow> float_or_none a (\<lambda>x. x / 1000)
                | _ \<Rightarrow> Inr iops_k)
        (\<lambda>iops_k.
      and_then (derive_latency_ms iops_k iodepth)
        (\<lambda>derived_latency.
      and_then (if truthy clat_avg then float_or_none (str_of clat_avg) (\<lambda>x. x / 1000)
                else Inr None)
        (\<lambda>clat_avg_ms.
      Inr \<lparr>s_run = run rec, s_file = filename rec, s_job_name = job_name rec,
           s_iodepth = iodepth, s_throughput_GBps = bw_gbps, s_iops_k = iops_k,
           s_derived_latency_ms = derived_latency, s_clat_avg_ms = clat_avg_ms,
           s_bw_source = bw_raw, s_iops_source = iops_raw\<rparr>))))))))"

section \<open>The extractor: the patterns\<close>

fun Seqs :: "rx list \<Rightarrow> rx" where
  "Seqs [] = Eps"
| "Seqs [r] = r"
| "Seqs (r # rs) = Seq r (Seqs rs)"

definition kv_key_char :: "char \<Rightarrow> bool" where
  \<comment> \<open>the class \<open>[A-Za-z0-9._%/\(\)-]\<close>\<close>
  "kv_key_char c = (key_char c \<or> c = CHR ''%'' \<or> c = CHR ''/'' \<or> c = CHR ''(''
                     \<or> c = CHR '')'')"

definition dev_char :: "char \<Rightarrow> bool" where
  \<comment> \<open>the class \<open>[A-Za-z0-9_-]\<close>\<close>
  "dev_char c = (is_upper c \<or> is_lower c \<or> is_digit c \<or> c = CHR ''_'' \<or> c = CHR ''-'')"

definition word_char :: "char \<Rightarrow> bool" where
  \<comment> \<open>the class \<open>[^,\s]\<close>\<close>
  "word_char c = (c \<noteq> CHR '','' \<and> \<not> isspace c)"

definition re_job_header :: rx where
  \<comment> \<open>\<open>^(?P<job>[A-Za-z0-9_.-]+):.*rw=(?P<rw>[^,\s]+).*ioengine=(?P<ioengine>[^,\s]+).*iodepth=(?P<iodepth>\d+)\<close>
      with \<open>re.I\<close>; the groups are 1 to 4\<close>
  "re_job_header =
     Seqs [Bol, Grp 1 (Plus (Cls key_char)), Chr (CHR '':''), Star Dot,
           Lit_i ''rw='', Grp 2 (Plus (Cls word_char)), Star Dot,
           Lit_i ''ioengine='', Grp 3 (Plus (Cls word_char)), Star Dot,
           Lit_i ''iodepth='', Grp 4 (Plus (Cls is_digit))]"

definition re_group_jobs :: rx where
  \<comment> \<open>\<open>^(?P<job>[A-Za-z0-9_.-]+): \(groupid=(?P<groupid>\d+), jobs=(?P<jobs>\d+)\):.*err=\s*(?P<err>[^:]+):\s*pid=(?P<pid>\d+):\s*(?P<timestamp>.+)$\<close>
      with \<open>re.I\<close>; the groups are 1 to 6\<close>
  "re_group_jobs =
     Seqs [Bol, Grp 1 (Plus (Cls key_char)), Lit_i '': (groupid='',
           Grp 2 (Plus (Cls is_digit)), Lit_i '', jobs='', Grp 3 (Plus (Cls is_digit)),
           Lit_i ''):'', Star Dot, Lit_i ''err='', Star (Cls isspace),
           Grp 4 (Plus (Cls (\<lambda>c. c \<noteq> CHR '':''))), Chr (CHR '':''), Star (Cls isspace),
           Lit_i ''pid='', Grp 5 (Plus (Cls is_digit)), Chr (CHR '':''), Star (Cls isspace),
           Grp 6 (Plus Dot), Eol]"

definition re_bs_r :: rx where
  \<comment> \<open>\<open>bs=\(R\)\s*(?P<bsr>[^,\s]+)\<close> with \<open>re.I\<close>\<close>
  "re_bs_r = Seqs [Lit_i ''bs=(R)'', Star (Cls isspace), Grp 1 (Plus (Cls word_char))]"

definition re_bs_w :: rx where
  \<comment> \<open>\<open>\(W\)\s*(?P<bsw>[^,\s]+)\<close> with \<open>re.I\<close>\<close>
  "re_bs_w = Seqs [Lit_i ''(W)'', Star (Cls isspace), Grp 1 (Plus (Cls word_char))]"

definition re_bs_t :: rx where
  \<comment> \<open>\<open>\(T\)\s*(?P<bst>[^,\s]+)\<close> with \<open>re.I\<close>\<close>
  "re_bs_t = Seqs [Lit_i ''(T)'', Star (Cls isspace), Grp 1 (Plus (Cls word_char))]"

definition re_fio_version :: rx where
  \<comment> \<open>\<open>^fio-(?P<version>[0-9.]+)\<close>\<close>
  "re_fio_version = Seqs [Bol, Lit ''fio-'', Grp 1 (Plus (Cls num_char))]"

definition re_layout :: rx where
  \<comment> \<open>\<open>Laying out IO file.*\((?P<files>\d+) file[s]? / (?P<size>[^)]+)\)\<close>\<close>
  "re_layout =
     Seqs [Lit ''Laying out IO file'', Star Dot, Chr (CHR ''(''), Grp 1 (Plus (Cls is_digit)),
           Lit '' file'', Opt (Chr (CHR ''s'')), Lit '' / '',
           Grp 2 (Plus (Cls (\<lambda>c. c \<noteq> CHR '')''))), Chr (CHR '')'')]"

definition re_kv :: rx where
  \<comment> \<open>\<open>(?P<key>[A-Za-z0-9._%/\(\)-]+)=(?P<value>[^,]+)\<close>\<close>
  "re_kv =
     Seqs [Grp 1 (Plus (Cls kv_key_char)), Chr (CHR ''=''),
           Grp 2 (Plus (Cls (\<lambda>c. c \<noteq> CHR '','')))]"

definition re_percentile :: rx where
  \<comment> \<open>\<open>(?P<pct>[0-9]+(?:\.[0-9]+)?th)=\[\s*(?P<val>[^\]]+)\]\<close>\<close>
  "re_percentile =
     Seqs [Grp 1 (Seqs [Plus (Cls is_digit), Opt (Seq (Chr (CHR ''.'')) (Plus (Cls is_digit))),
                        Lit ''th'']),
           Lit ''=['', Star (Cls isspace), Grp 2 (Plus (Cls (\<lambda>c. c \<noteq> CHR '']''))),
           Chr (CHR '']'')]"

definition re_disk_dev :: rx where
  \<comment> \<open>\<open>^(?P<dev>[A-Za-z0-9_-]+):\s*(?P<rest>.+)\<close>\<close>
  "re_disk_dev =
     Seqs [Bol, Grp 1 (Plus (Cls dev_char)), Chr (CHR '':''), Star (Cls isspace),
           Grp 2 (Plus Dot)]"

definition re_run_read :: rx where
  \<comment> \<open>\<open>^\s*READ:\<close>\<close>
  "re_run_read = Seqs [Bol, Star (Cls isspace), Lit ''READ:'']"

definition re_run_write :: rx where
  \<comment> \<open>\<open>^\s*WRITE:\<close>\<close>
  "re_run_write = Seqs [Bol, Star (Cls isspace), Lit ''WRITE:'']"

definition re_field :: "string \<Rightarrow> rx" where
  \<comment> \<open>\<open>total=([^ ]+)\<close>, \<open>short=([^ ]+)\<close> and \<open>dropped=([^ ]+)\<close>\<close>
  "re_field name = Seqs [Lit name, Chr (CHR ''=''), Grp 1 (Plus (Cls (\<lambda>c. c \<noteq> CHR '' '')))]"

section \<open>The extractor: the pass over the lines\<close>

definition emit_kv :: "string \<Rightarrow> string list \<Rightarrow> groups \<Rightarrow> string list" where
  \<comment> \<open>the body of the loop of \<open>parse_kv_list\<close>, for one match of \<open>re_kv\<close>\<close>
  "emit_kv prefix out_list m =
     (let k = normalize_key (group m 1);
          v = strip (group m 2);
          v = strip v
      in emit out_list (prefix @ k) v)"

definition parse_kv_list :: "string \<Rightarrow> string \<Rightarrow> string list \<Rightarrow> string list" where
  "parse_kv_list line prefix out_list = foldl (emit_kv prefix) out_list (rx_finditer re_kv line)"

definition parse_percentile_line :: "string \<Rightarrow> string \<Rightarrow> string list \<Rightarrow> string list" where
  "parse_percentile_line line prefix out_list =
     foldl (\<lambda>out_list m. emit out_list (prefix @ group m 1) (strip (group m 2)))
       out_list (rx_finditer re_percentile line)"

definition parse_disk_stats :: "string \<Rightarrow> string \<Rightarrow> string list \<Rightarrow> string list" where
  "parse_disk_stats dev rest out_list =
     foldl (\<lambda>out_list m.
              (let k = normalize_key (group m 1);
                   v = strip (group m 2)
               in if CHR ''/'' \<in> set v \<and> CHR '','' \<notin> set v then
                    (case split1 (CHR ''/'') v of
                       part_a # part_b # _ \<Rightarrow>
                         emit (emit out_list (''disk_'' @ dev @ ''_'' @ k @ ''_read'')
                                 (strip part_a))
                           (''disk_'' @ dev @ ''_'' @ k @ ''_write'') (strip part_b)
                     | _ \<Rightarrow> out_list)
                  else emit out_list (''disk_'' @ dev @ ''_'' @ k) v))
       out_list (rx_finditer re_kv rest)"

text \<open>The local variables of \<open>parse_file\<close>.\<close>

record extractor =
  out :: "string list"
  pct_mode :: "string option"
  disk_section :: bool

definition after_colon :: "string \<Rightarrow> error + string" where
  \<comment> \<open>\<open>sline.split(':', 1)[1]\<close>\<close>
  "after_colon sline =
     (case split1 (CHR '':'') sline of _ # b # _ \<Rightarrow> Inr b | _ \<Rightarrow> Inl IndexError)"

definition kv_rule :: "extractor \<Rightarrow> string \<Rightarrow> string \<Rightarrow> error + extractor" where
  \<comment> \<open>\<open>parse_kv_list(sline.split(':', 1)[1], prefix, out)\<close>\<close>
  "kv_rule st sline prefix =
     and_then (after_colon sline)
       (\<lambda>rest. Inr (st\<lparr>out := parse_kv_list rest prefix (out st)\<rparr>))"

definition emit_opt :: "string list \<Rightarrow> string \<Rightarrow> groups option \<Rightarrow> string list" where
  \<comment> \<open>\<open>if m: emit(out, k, m.group(1))\<close>\<close>
  "emit_opt out_list k m = (case m of Some g \<Rightarrow> emit out_list k (group g 1) | None \<Rightarrow> out_list)"

definition emit_if :: "string list \<Rightarrow> string \<Rightarrow> string \<Rightarrow> string list" where
  \<comment> \<open>\<open>if v: emit(out, k, v)\<close>\<close>
  "emit_if out_list k v = (if v \<noteq> [] then emit out_list k v else out_list)"

definition later_rules :: "extractor \<Rightarrow> string \<Rightarrow> error + extractor" where
  \<comment> \<open>the cascade of \<open>parse_file\<close> after the test for \<open>iops\<close>\<close>
  "later_rules st sline =
     (if startswith sline ''lat (usec)'' then kv_rule st sline ''lat_usecpct_''
      else if startswith sline ''cpu'' then kv_rule st sline ''cpu_''
      else if startswith sline ''IO depths'' then kv_rule st sline ''iodepth_dist_''
      else if startswith sline ''submit'' then kv_rule st sline ''submit_''
      else if startswith sline ''complete'' then kv_rule st sline ''complete_''
      else if contains sline ''issued rwts'' then
        (let acc = emit_opt (out st) ''issued_total'' (rx_search (re_field ''total'') sline);
             acc = emit_opt acc ''issued_short'' (rx_search (re_field ''short'') sline);
             acc = emit_opt acc ''issued_dropped'' (rx_search (re_field ''dropped'') sline)
         in Inr (st\<lparr>out := acc\<rparr>))
      else if startswith sline ''latency'' then kv_rule st sline ''latency_cfg_''
      else if contains sline ''Disk stats'' then Inr (st\<lparr>disk_section := True\<rparr>)
      else
        (case (if disk_section st then rx_match re_disk_dev sline else None) of
           Some m \<Rightarrow> Inr (st\<lparr>out := parse_disk_stats (group m 1) (group m 2) (out st)\<rparr>)
         | None \<Rightarrow>
             Inr (st\<lparr>out := foldl (\<lambda>out_list m.
                                     emit out_list (normalize_key (group m 1))
                                       (strip (group m 2)))
                              (out st) (rx_finditer re_kv sline)\<rparr>)))"

definition kv_rules :: "extractor \<Rightarrow> string \<Rightarrow> error + extractor" where
  \<comment> \<open>the cascade of \<open>parse_file\<close> from the run summary lines on\<close>
  "kv_rules st sline =
     (if rx_match re_run_read sline \<noteq> None
        then Inr (st\<lparr>out := parse_kv_list sline ''run_read_'' (out st)\<rparr>)
      else if rx_match re_run_write sline \<noteq> None
        then Inr (st\<lparr>out := parse_kv_list sline ''run_write_'' (out st)\<rparr>)
      else if startswith sline ''read:'' then kv_rule st sline ''read_''
      else if startswith sline ''write:'' then kv_rule st sline ''write_''
      else if startswith sline ''slat'' then kv_rule st sline ''slat_''
      else if startswith sline ''clat'' \<and> \<not> contains (lower sline) ''percentiles''
        then kv_rule st sline ''clat_''
      else if startswith sline ''lat (usec)'' \<or> startswith sline ''lat (usec)   :''
        then kv_rule st sline ''lat_usec_''
      else if startswith sline ''lat (msec)'' then kv_rule st sline ''lat_msec_''
      else if startswith sline ''bw ('' \<or> startswith sline ''bw (''
        then kv_rule st sline ''bw_''
      else if startswith sline ''iops'' \<and> contains sline ''iops''
        then kv_rule st sline ''iops_''
      else later_rules st sline)"

definition parse_line :: "extractor \<Rightarrow> string \<Rightarrow> error + extractor" where
  \<comment> \<open>the body of the loop of \<open>parse_file\<close> over the lines\<close>
  "parse_line st raw =
     (let line = rstrip_chr (CHR 0x0A) raw;
          sline = strip line in
      if sline = [] then Inr (st\<lparr>disk_section := False, pct_mode := None\<rparr>)
      else
        (case rx_match re_fio_version sline of
           Some m \<Rightarrow> Inr (st\<lparr>out := emit (out st) ''fio_version'' (group m 1)\<rparr>)
         | None \<Rightarrow>
        if contains sline ''Laying out IO file'' then
          (case rx_search re_layout sline of
             Some m \<Rightarrow>
               Inr (st\<lparr>out := emit (emit (out st) ''layout_files'' (group m 1))
                                ''layout_size'' (group m 2)\<rparr>)
           | None \<Rightarrow> Inr st)
        else
        (case rx_search re_group_jobs sline of
           Some m \<Rightarrow>
             (let acc = emit (out st) ''job_name'' (group m 1);
                  acc = emit acc ''groupid'' (group m 2);
                  acc = emit acc ''jobs'' (group m 3);
                  acc = emit acc ''err'' (group m 4);
                  acc = emit acc ''pid'' (group m 5);
                  acc = emit acc ''timestamp'' (group m 6)
              in Inr (st\<lparr>out := acc\<rparr>))
         | None \<Rightarrow>
        (case rx_search re_job_header sline of
           Some m \<Rightarrow>
             (let acc = emit (out st) ''job_name'' (group m 1);
                  acc = emit_if acc ''rw'' (group m 2);
                  acc = emit_if acc ''ioengine'' (group m 3);
                  acc = emit_if acc ''iodepth'' (group m 4);
                  acc = emit_opt acc ''bs_r'' (rx_search re_bs_r sline);
                  acc = emit_opt acc ''bs_w'' (rx_search re_bs_w sline);
                  acc = emit_opt acc ''bs_t'' (rx_search re_bs_t sline)
              in Inr (st\<lparr>out := acc\<rparr>))
         | None \<Rightarrow>
        if startswith (lower sline) ''clat percentiles''
           \<or> startswith (lower sline) ''clat percentiles (usec):''
          then Inr (st\<lparr>pct_mode := Some ''clat''\<rparr>)
        else if pct_mode st = Some ''clat'' \<and> startswith sline ''|''
          then Inr (st\<lparr>out := parse_percentile_line sline ''clat_pct_'' (out st)\<rparr>)
        else kv_rules st sline))))"

fun parse_lines :: "extractor \<Rightarrow> string list \<Rightarrow> error + extractor" where
  "parse_lines st [] = Inr st"
| "parse_lines st (raw # raws) = and_then (parse_line st raw) (\<lambda>st. parse_lines st raws)"

definition parse_file :: "string list \<Rightarrow> error + string list" where
  \<comment> \<open>the argument is the sequence of lines that iterating over the open file gives\<close>
  "parse_file raws =
     and_then (parse_lines \<lparr>out = [], pct_mode = None, disk_section = False\<rparr> raws)
       (\<lambda>st. Inr (out st))"

definition earlier_rule :: "extractor \<Rightarrow> string \<Rightarrow> bool" where
  \<comment> \<open>a rule of the cascade that stands before the test for \<open>iops\<close> takes the stripped line\<close>
  "earlier_rule st sline =
     (sline = [] \<or> rx_match re_fio_version sline \<noteq> None
      \<or> contains sline ''Laying out IO file''
      \<or> rx_search re_group_jobs sline \<noteq> None \<or> rx_search re_job_header sline \<noteq> None
      \<or> startswith (lower sline) ''clat percentiles''
      \<or> startswith (lower sline) ''clat percentiles (usec):''
      \<or> (pct_mode st = Some ''clat'' \<and> startswith sline ''|'')
      \<or> rx_match re_run_read sline \<noteq> None \<or> rx_match re_run_write sline \<noteq> None
      \<or> startswith sline ''read:'' \<or> startswith sline ''write:'' \<or> startswith sline ''slat''
      \<or> (startswith sline ''clat'' \<and> \<not> contains (lower sline) ''percentiles'')
      \<or> startswith sline ''lat (usec)'' \<or> startswith sline ''lat (usec)   :''
      \<or> startswith sline ''lat (msec)'' \<or> startswith sline ''bw ('')"

section \<open>The notions of the statements\<close>

text \<open>
  The definitions of this section are not taken from the source: the statements about the
  code are made with them. The first ones say what \<open>size_pat\<close> and \<open>iops_pat\<close> match, read
  off the text from left to right: for \<open>size_pat\<close> a run of digits and dots, white space, a
  unit and \<open>/s\<close>. The last ones name the flush boundaries of the splitter and the key of a
  metric line.
\<close>

definition unit_tok :: "string \<Rightarrow> string option" where
  \<comment> \<open>the unit \<open>[KMGTP]?i?B\<close> at the start of the text, when \<open>/s\<close> follows it\<close>
  "unit_tok r =
     (let a = (case r of c # _ \<Rightarrow> if lower_chr c \<in> set ''kmgtp'' then [c] else [] | [] \<Rightarrow> []);
          r1 = drop (length a) r;
          b = (case r1 of c # _ \<Rightarrow> if lower_chr c = CHR ''i'' then [c] else [] | [] \<Rightarrow> []);
          r2 = drop (length b) r1
      in case r2 of
           c # d # e # _ \<Rightarrow>
             if lower_chr c = CHR ''b'' \<and> d = CHR ''/'' \<and> lower_chr e = CHR ''s''
             then Some (a @ b @ [c]) else None
         | _ \<Rightarrow> None)"

definition tok_number :: "string \<Rightarrow> string" where
  "tok_number t = takeWhile num_char t"

definition tok_unit :: "string \<Rightarrow> string" where
  "tok_unit t =
     (case unit_tok (dropWhile isspace (dropWhile num_char t)) of Some u \<Rightarrow> u | None \<Rightarrow> [])"

definition token_at :: "string \<Rightarrow> bool" where
  \<comment> \<open>a bandwidth token starts the text\<close>
  "token_at t = (takeWhile num_char t \<noteq> []
                  \<and> unit_tok (dropWhile isspace (dropWhile num_char t)) \<noteq> None)"

definition unit_form :: "string \<Rightarrow> bool" where
  \<comment> \<open>the unit is one of the forms of \<open>[KMGTP]?i?B\<close>, in any case\<close>
  "unit_form u = (lower u \<in> set [''b'', ''ib'', ''kb'', ''kib'', ''mb'', ''mib'', ''gb'', ''gib'',
                                 ''tb'', ''tib'', ''pb'', ''pib''])"

definition size_unit :: rx where
  \<comment> \<open>the part \<open>([KMGTP]?i?B)/s\<close> of \<open>size_pat\<close>\<close>
  "size_unit = Seq (Grp 2 (Seq (Opt (Cls (\<lambda>c. lower_chr c \<in> set ''kmgtp'')))
                        (Seq (Opt (Chr_i (CHR ''i''))) (Chr_i (CHR ''B'')))))
             (Seq (Chr (CHR ''/'')) (Chr_i (CHR ''s'')))"

definition iops_suffix :: "string \<Rightarrow> string" where
  \<comment> \<open>the suffix \<open>[kKmM]?\<close> at the start of the text\<close>
  "iops_suffix r = (case r of c # _ \<Rightarrow> if c \<in> set ''kKmM'' then [c] else [] | [] \<Rightarrow> [])"

definition is_marker :: "string \<Rightarrow> bool" where
  \<comment> \<open>the raw line is a flush boundary: a run marker or a file marker\<close>
  "is_marker raw = (is_run_marker (strip_chr (CHR 0x0A) raw)
                     \<or> is_file_marker (strip_chr (CHR 0x0A) raw))"

definition line_key :: "string \<Rightarrow> string option" where
  \<comment> \<open>the key that a raw metric line sets\<close>
  "line_key raw = map_option fst (parse_key_val (strip_chr (CHR 0x0A) raw))"

section \<open>Characters\<close>

lemma code_chr [simp]:
  "code (CHR ''_'') = 95" "code (CHR ''.'') = 46" "code (CHR ''-'') = 45"
  "code (CHR ''('') = 40" "code (CHR '')'') = 41" "code (CHR ''%'') = 37"
  "code (CHR ''/'') = 47" "code (CHR '':'') = 58" "code (CHR ''='') = 61"
  "code (CHR ''#'') = 35" "code (CHR '' '') = 32" "code (CHR 0x09) = 9"
  by (simp_all add: code_def)

lemma code_inj: "code c = code d \<Longrightarrow> c = d"
  by (simp add: code_def)

lemma code_lower_upper: "is_upper c \<Longrightarrow> code (lower_chr c) = code c + 32"
  by (simp add: lower_chr_def is_upper_def code_def)

lemma normal_char_lower: "key_char c \<Longrightarrow> normal_char (lower_chr c)"
proof (cases "is_upper c")
  case True
  then have "is_lower (lower_chr c)"
    using code_lower_upper [OF True] by (simp add: is_lower_def is_upper_def)
  then show ?thesis by (simp add: normal_char_def)
next
  case False
  assume k: "key_char c"
  from k False have "code c < 192"
    by (auto simp: key_char_def is_lower_def is_digit_def)
  with False have "lower_chr c = c" by (simp add: lower_chr_def)
  with k False show ?thesis by (simp add: key_char_def normal_char_def)
qed

lemma normal_char_not_others:
  assumes "normal_char c"
  shows "\<not> isspace c" "c \<noteq> CHR ''(''" "c \<noteq> CHR '')''" "c \<noteq> CHR ''%''" "c \<noteq> CHR ''/''"
    "c \<noteq> CHR '':''" "key_char c" "lower_chr c = c"
  using assms
  by (auto simp: normal_char_def isspace_def is_lower_def is_digit_def key_char_def
      lower_chr_def is_upper_def)

section \<open>The splitter: flushing and duplicate keys\<close>

lemma flush_fields [simp]:
  "current_metrics (flush st) = []" "current_file (flush st) = None"
  "cur_job_name (flush st) = None" "run_num (flush st) = run_num st"
  by (simp_all add: flush_def Let_def)

lemma records_flush:
  "records (flush st) =
     (case (run_num st, current_file st, current_metrics st) of
        (Some r, Some f, kv # kvs) \<Rightarrow>
          records st @ [\<lparr>run = r, filename = f, job_name = cur_job_name st, metrics = kv # kvs\<rparr>]
      | _ \<Rightarrow> records st)"
  by (simp add: flush_def Let_def split: option.splits list.splits)

lemma records_flush_set:
  assumes "run_num s = Some r" "current_file s = Some f" "current_metrics s \<noteq> []"
  shows "records (flush s) = records s @ [\<lparr>run = r, filename = f, job_name = cur_job_name s,
          metrics = current_metrics s\<rparr>]"
  using assms by (simp add: flush_def Let_def)

lemma records_flush_flush: "records (flush (flush st)) = records (flush st)"
  by (simp add: records_flush [of "flush st"] split: option.splits)

lemma records_split_line:
  "records (split_line st raw) = (if is_marker raw then records (flush st) else records st)"
  by (simp add: split_line_def is_marker_def Let_def split: option.splits)

lemma split_line_marker_empty:
  assumes "is_marker raw"
  shows "current_metrics (split_line st raw) = []"
    and "is_run_marker (strip_chr (CHR 0x0A) raw) \<Longrightarrow> current_file (split_line st raw) = None"
  using assms by (auto simp add: split_line_def is_marker_def Let_def split: option.splits)

lemma records_flush_after_marker:
  "is_marker raw \<Longrightarrow> records (flush (split_line st raw)) = records (split_line st raw)"
  by (simp add: records_flush [of "split_line st raw"] split_line_marker_empty split: option.splits)

lemma split_line_metric:
  assumes "\<not> is_marker raw"
  shows "run_num (split_line st raw) = run_num st"
    and "current_file (split_line st raw) = current_file st"
    and "records (split_line st raw) = records st"
    and "current_metrics (split_line st raw) =
           (case parse_key_val (strip_chr (CHR 0x0A) raw) of
              Some (k, v) \<Rightarrow> AList.update k v (current_metrics st)
            | None \<Rightarrow> current_metrics st)"
  using assms by (auto simp add: split_line_def is_marker_def Let_def split: option.splits)

lemma foldl_metric_fields:
  assumes "list_all (\<lambda>raw. \<not> is_marker raw) ls"
  shows "run_num (foldl split_line st ls) = run_num st
       \<and> current_file (foldl split_line st ls) = current_file st
       \<and> records (foldl split_line st ls) = records st"
  using assms by (induction ls arbitrary: st) (simp_all add: split_line_metric)

lemma foldl_other_keys:
  assumes "list_all (\<lambda>raw. \<not> is_marker raw \<and> line_key raw \<noteq> Some k) ls"
  shows "map_of (current_metrics (foldl split_line st ls)) k = map_of (current_metrics st) k"
  using assms
proof (induction ls arbitrary: st)
  case Nil
  then show ?case by simp
next
  case (Cons raw ls)
  then have m: "\<not> is_marker raw" and k: "line_key raw \<noteq> Some k"
    and r: "list_all (\<lambda>raw. \<not> is_marker raw \<and> line_key raw \<noteq> Some k) ls"
    by simp_all
  have "map_of (current_metrics (split_line st raw)) k = map_of (current_metrics st) k"
    using k by (auto simp: split_line_metric [OF m] line_key_def update_conv' split: option.splits)
  with Cons.IH [OF r] show ?case by simp
qed

lemma foldl_nonempty:
  assumes "list_all (\<lambda>raw. \<not> is_marker raw) ls" "current_metrics st \<noteq> []"
  shows "current_metrics (foldl split_line st ls) \<noteq> []"
  using assms
  by (induction ls arbitrary: st) (auto simp: split_line_metric split: option.splits)

lemma foldl_distinct:
  assumes "list_all (\<lambda>raw. \<not> is_marker raw) ls" "distinct (map fst (current_metrics st))"
  shows "distinct (map fst (current_metrics (foldl split_line st ls)))"
  using assms
  by (induction ls arbitrary: st) (auto simp: split_line_metric distinct_update split: option.splits)

lemma last_value_wins_aux:
  assumes pre: "list_all (\<lambda>raw. \<not> is_marker raw) pre"
    and l: "\<not> is_marker l" "parse_key_val (strip_chr (CHR 0x0A) l) = Some (k, v)"
    and post: "list_all (\<lambda>raw. \<not> is_marker raw \<and> line_key raw \<noteq> Some k) post"
  shows "map_of (current_metrics (foldl split_line st (pre @ l # post))) k = Some v"
    and "current_metrics (foldl split_line st (pre @ l # post)) \<noteq> []"
proof -
  let ?a = "foldl split_line st pre"
  let ?b = "split_line ?a l"
  have b: "current_metrics ?b = AList.update k v (current_metrics ?a)"
    using l by (simp add: split_line_metric)
  have p': "list_all (\<lambda>raw. \<not> is_marker raw) post"
    using post by (simp add: list_all_iff)
  show "map_of (current_metrics (foldl split_line st (pre @ l # post))) k = Some v"
    using foldl_other_keys [OF post, of ?b] b by (simp add: update_conv')
  show "current_metrics (foldl split_line st (pre @ l # post)) \<noteq> []"
    using foldl_nonempty [OF p', of ?b] b by simp
qed

lemma flush_nonempty:
  assumes "list_all (\<lambda>r. metrics r \<noteq> []) (records st)"
  shows "list_all (\<lambda>r. metrics r \<noteq> []) (records (flush st))"
  using assms by (simp add: records_flush split: option.splits list.splits)

lemma split_line_nonempty:
  assumes "list_all (\<lambda>r. metrics r \<noteq> []) (records st)"
  shows "list_all (\<lambda>r. metrics r \<noteq> []) (records (split_line st raw))"
  using assms flush_nonempty [OF assms] by (simp add: records_split_line)

lemma foldl_split_line_nonempty:
  assumes "list_all (\<lambda>r. metrics r \<noteq> []) (records st)"
  shows "list_all (\<lambda>r. metrics r \<noteq> []) (records (foldl split_line st raws))"
  using assms by (induction raws arbitrary: st) (simp_all add: split_line_nonempty)

lemma parse_consolidated_nonempty:
  "list_all (\<lambda>r. metrics r \<noteq> []) (parse_consolidated raws)"
  unfolding parse_consolidated_def
  by (intro flush_nonempty foldl_split_line_nonempty) (simp add: splitter_init_def)

text \<open>
  Claim C5. A Record is emitted exactly at a flush boundary (a run marker, a file marker, the
  end of the input) at which the run number, the current file and at least one metric are
  set: a line changes the records only when it is a marker, and then by a flush; a flush
  appends the block in progress when the three are set and nothing otherwise; the end of
  the input flushes once, and a second flush adds nothing; no Record of the result has an
  empty mapping. A flush right after a marker (a
  block with no metric line) emits nothing, and a flush keeps the run number and clears the
  block whether or not it emitted, so that a discarded block leaves the parser ready for
  the next one: RUN 1, a.txt, no metric line, RUN 2 gives no Record, and the block of run 2
  that follows is emitted.
\<close>

theorem splitter_flush_discipline:
  "records (split_line st raw) = (if is_marker raw then records (flush st) else records st)
   \<and> records (flush st) =
       (case (run_num st, current_file st, current_metrics st) of
          (Some r, Some f, kv # kvs) \<Rightarrow>
            records st @ [\<lparr>run = r, filename = f, job_name = cur_job_name st,
                            metrics = kv # kvs\<rparr>]
        | _ \<Rightarrow> records st)
   \<and> parse_consolidated raws = records (flush (foldl split_line splitter_init raws))
   \<and> list_all (\<lambda>r. metrics r \<noteq> []) (parse_consolidated raws)
   \<and> records (flush (flush st)) = records (flush st)
   \<and> (is_marker raw \<longrightarrow> records (flush (split_line st raw)) = records (split_line st raw))
   \<and> run_num (flush st) = run_num st \<and> current_file (flush st) = None
   \<and> current_metrics (flush st) = [] \<and> cur_job_name (flush st) = None
   \<and> parse_consolidated
         [''~~~~~~~ RUN #1 ~~~~~~~'' @ [CHR 0x0A], ''-- a.txt --'' @ [CHR 0x0A],
          ''~~~~~~~ RUN #2 ~~~~~~~'' @ [CHR 0x0A]] = []
   \<and> parse_consolidated
         [''~~~~~~~ RUN #1 ~~~~~~~'' @ [CHR 0x0A], ''-- a.txt --'' @ [CHR 0x0A],
          ''~~~~~~~ RUN #2 ~~~~~~~'' @ [CHR 0x0A], ''-- b.txt --'' @ [CHR 0x0A],
          ''read_iops = 84.4k'' @ [CHR 0x0A]]
       = [\<lparr>run = 2, filename = ''b.txt'', job_name = None,
            metrics = [(''read_iops'', ''84.4k'')]\<rparr>]"
proof -
  have e1: "parse_consolidated
         [''~~~~~~~ RUN #1 ~~~~~~~'' @ [CHR 0x0A], ''-- a.txt --'' @ [CHR 0x0A],
          ''~~~~~~~ RUN #2 ~~~~~~~'' @ [CHR 0x0A]] = []"
    by code_simp
  have e2: "parse_consolidated
         [''~~~~~~~ RUN #1 ~~~~~~~'' @ [CHR 0x0A], ''-- a.txt --'' @ [CHR 0x0A],
          ''~~~~~~~ RUN #2 ~~~~~~~'' @ [CHR 0x0A], ''-- b.txt --'' @ [CHR 0x0A],
          ''read_iops = 84.4k'' @ [CHR 0x0A]]
       = [\<lparr>run = 2, filename = ''b.txt'', job_name = None,
            metrics = [(''read_iops'', ''84.4k'')]\<rparr>]"
    by code_simp
  have d: "parse_consolidated raws = records (flush (foldl split_line splitter_init raws))"
    by (simp add: parse_consolidated_def)
  show ?thesis
    by (intro conjI impI;
        (rule records_split_line records_flush d records_flush_flush flush_fields e1 e2
           parse_consolidated_nonempty
         | erule records_flush_after_marker))
qed

theorem splitter_flush_discipline_witness:
  "is_marker ''-- b.txt --''
   \<and> records (split_line (splitter_init\<lparr>run_num := Some 1, current_file := Some ''a.txt'',
                  current_metrics := [(''k'', ''v'')]\<rparr>) ''-- b.txt --'')
       = [\<lparr>run = 1, filename = ''a.txt'', job_name = None, metrics = [(''k'', ''v'')]\<rparr>]
   \<and> records (flush (split_line (splitter_init\<lparr>run_num := Some 1,
                  current_file := Some ''a.txt'', current_metrics := [(''k'', ''v'')]\<rparr>)
                  ''-- b.txt --''))
       = [\<lparr>run = 1, filename = ''a.txt'', job_name = None, metrics = [(''k'', ''v'')]\<rparr>]"
proof -
  have h: "is_marker ''-- b.txt --''"
    by code_simp
  show ?thesis
    using h splitter_flush_discipline [of "splitter_init\<lparr>run_num := Some 1,
      current_file := Some ''a.txt'', current_metrics := [(''k'', ''v'')]\<rparr>" "''-- b.txt --''"]
    by (simp add: splitter_init_def)
qed

text \<open>
  Claim C8. Within one block (metric lines with no marker between them, under a run and a
  file), the value that the Record holds for a key is the value of the last line that sets
  the key; the keys of the Record's mapping are distinct.
\<close>

theorem last_value_wins:
  assumes "list_all (\<lambda>raw. \<not> is_marker raw) pre"
    and "\<not> is_marker l" and "parse_key_val (strip_chr (CHR 0x0A) l) = Some (k, v)"
    and "list_all (\<lambda>raw. \<not> is_marker raw \<and> line_key raw \<noteq> Some k) post"
    and "run_num st = Some r" and "current_file st = Some f"
    and "distinct (map fst (current_metrics st))"
  shows "\<exists>rec. records (flush (foldl split_line st (pre @ l # post))) = records st @ [rec]
           \<and> run rec = r \<and> filename rec = f \<and> map_of (metrics rec) k = Some v
           \<and> distinct (map fst (metrics rec))"
proof -
  let ?s = "foldl split_line st (pre @ l # post)"
  have all: "list_all (\<lambda>raw. \<not> is_marker raw) (pre @ l # post)"
    using assms(1,2,4) by (auto simp add: list_all_iff)
  have f: "run_num ?s = Some r" "current_file ?s = Some f" "records ?s = records st"
    using foldl_metric_fields [OF all, of st] assms(5,6) by simp_all
  have m: "map_of (current_metrics ?s) k = Some v" "current_metrics ?s \<noteq> []"
    using last_value_wins_aux [OF assms(1,2,3,4)] by simp_all
  have d: "distinct (map fst (current_metrics ?s))"
    using foldl_distinct [OF all assms(7)] .
  have "records (flush ?s) = records st @ [\<lparr>run = r, filename = f, job_name = cur_job_name ?s,
          metrics = current_metrics ?s\<rparr>]"
    using records_flush_set [OF f(1) f(2) m(2)] f(3) by simp
  with m d show ?thesis by simp
qed

theorem last_value_wins_witness:
  "\<exists>rec. records (flush (foldl split_line
             (splitter_init\<lparr>run_num := Some 1, current_file := Some ''a.txt''\<rparr>)
             ([''k = 1''] @ ''k = 2'' # [''j = 3''])))
           = records (splitter_init\<lparr>run_num := Some 1, current_file := Some ''a.txt''\<rparr>)
             @ [rec]
         \<and> run rec = 1 \<and> filename rec = ''a.txt'' \<and> map_of (metrics rec) ''k'' = Some ''2''
         \<and> distinct (map fst (metrics rec))"
proof (rule last_value_wins)
  show "list_all (\<lambda>raw. \<not> is_marker raw) [''k = 1'']" by code_simp
  show "\<not> is_marker ''k = 2''" by code_simp
  show "parse_key_val (strip_chr (CHR 0x0A) ''k = 2'') = Some (''k'', ''2'')" by code_simp
  show "list_all (\<lambda>raw. \<not> is_marker raw \<and> line_key raw \<noteq> Some ''k'') [''j = 3'']"
    by code_simp
qed (simp_all add: splitter_init_def)

section \<open>Runs of a character class\<close>

lemma star_cls_Nil: "rx_run (Star (Cls p)) i [] g = [(i, [], g)]"
  by (subst rx_run.simps) simp

lemma star_cls_Cons:
  "rx_run (Star (Cls p)) i (c # cs) g =
     (if p c then rx_run (Star (Cls p)) (Suc i) cs g else []) @ [(i, c # cs, g)]"
  by (subst rx_run.simps) (simp del: rx_run.simps add: rx_run.simps(1))

lemma seq_star_cls:
  assumes "\<And>c t j h. p c \<Longrightarrow> rx_run R j (c # t) h = []"
  shows "rx_run (Seq (Star (Cls p)) R) i s g =
           rx_run R (i + length (takeWhile p s)) (dropWhile p s) g"
proof (induction s arbitrary: i)
  case Nil
  show ?case by (simp add: star_cls_Nil del: rx_run.simps add: rx_run.simps(5))
next
  case (Cons c cs)
  show ?case
  proof (cases "p c")
    case True
    have "rx_run (Seq (Star (Cls p)) R) i (c # cs) g =
            rx_run (Seq (Star (Cls p)) R) (Suc i) cs g @ rx_run R i (c # cs) g"
      using True by (simp add: star_cls_Cons del: rx_run.simps add: rx_run.simps(5))
    with True Cons.IH [of "Suc i"] assms [OF True] show ?thesis by simp
  next
    case False
    then show ?thesis by (simp add: star_cls_Cons del: rx_run.simps add: rx_run.simps(5))
  qed
qed

lemma upt_0_Suc: "[0..<Suc m] = 0 # map Suc [0..<m]"
  by (simp add: upt_conv_Cons map_Suc_upt del: upt_Suc)

text \<open>the results of a greedy run of a class, longest first\<close>

lemma star_cls_run:
  "rx_run (Star (Cls p)) i s g =
     map (\<lambda>k. (i + k, drop k s, g)) (rev [0..<Suc (length (takeWhile p s))])"
proof (induction s arbitrary: i)
  case Nil
  show ?case by (simp add: star_cls_Nil)
next
  case (Cons c cs)
  show ?case
  proof (cases "p c")
    case True
    let ?n = "length (takeWhile p cs)"
    have u: "[0..<Suc (Suc ?n)] = 0 # map Suc [0..<Suc ?n]"
      by (rule upt_0_Suc)
    have "rx_run (Star (Cls p)) i (c # cs) g =
            rx_run (Star (Cls p)) (Suc i) cs g @ [(i, c # cs, g)]"
      using True by (simp add: star_cls_Cons)
    also have "\<dots> = map (\<lambda>k. (Suc i + k, drop k cs, g)) (rev [0..<Suc ?n]) @ [(i, c # cs, g)]"
      by (simp only: Cons.IH)
    also have "\<dots> = map (\<lambda>k. (i + k, drop k (c # cs), g)) (map Suc (rev [0..<Suc ?n]))
                    @ map (\<lambda>k. (i + k, drop k (c # cs), g)) [0]"
      by (simp add: comp_def del: upt_Suc)
    also have "\<dots> = map (\<lambda>k. (i + k, drop k (c # cs), g)) (rev (0 # map Suc [0..<Suc ?n]))"
      by (simp add: rev_map del: upt_Suc)
    also have "\<dots> = map (\<lambda>k. (i + k, drop k (c # cs), g)) (rev [0..<Suc (Suc ?n)])"
      by (simp only: u)
    finally show ?thesis using True by simp
  next
    case False
    then show ?thesis by (simp add: star_cls_Cons)
  qed
qed

lemma concat_map_first:
  assumes "\<And>k. k < n \<Longrightarrow> F k = []"
  shows "concat (map F (rev [0..<Suc n])) = F n"
proof -
  have "concat (map F (rev [0..<n])) = []"
    using assms by (simp add: concat_eq_Nil_conv)
  then show ?thesis by simp
qed

lemma drop_in_takeWhile:
  assumes "k < length (takeWhile p s)"
  shows "\<exists>t. drop k s = (s ! k) # t \<and> p (s ! k)"
proof -
  have l: "k < length s" using assms length_takeWhile_le [of p s] by simp
  have "takeWhile p s ! k = s ! k" using assms by (rule takeWhile_nth)
  moreover have "takeWhile p s ! k \<in> set (takeWhile p s)" using assms by simp
  ultimately have "p (s ! k)" using set_takeWhileD by metis
  with l show ?thesis by (metis Cons_nth_drop_Suc)
qed

lemma seq_grp_plus_cls:
  assumes R: "\<And>c t j h. p c \<Longrightarrow> rx_run R j (c # t) h = []"
  shows "rx_run (Seq (Grp n (Plus (Cls p))) R) i s g =
           (if takeWhile p s = [] then []
            else rx_run R (i + length (takeWhile p s)) (dropWhile p s)
                   (AList.update n (takeWhile p s) g))"
proof (cases s)
  case Nil
  then show ?thesis by (simp add: Plus_def)
next
  case (Cons c cs)
  show ?thesis
  proof (cases "p c")
    case False
    with Cons show ?thesis by (simp add: Plus_def)
  next
    case True
    let ?m = "length (takeWhile p cs)"
    let ?F = "\<lambda>k. rx_run R (Suc i + k) (drop k cs) (AList.update n (take (Suc k) (c # cs)) g)"
    have e: "rx_run (Seq (Grp n (Plus (Cls p))) R) i s g = concat (map ?F (rev [0..<Suc ?m]))"
      using True Cons
      by (simp add: Plus_def star_cls_run comp_def del: rx_run.simps upt_Suc
          add: rx_run.simps(1,5,8))
    have z: "?F k = []" if "k < ?m" for k
    proof -
      from drop_in_takeWhile [OF that] obtain t where "drop k cs = (cs ! k) # t" "p (cs ! k)"
        by blast
      then show ?thesis using R by simp
    qed
    have "concat (map ?F (rev [0..<Suc ?m])) = ?F ?m"
      using z by (rule concat_map_first)
    moreover have "take ?m cs = takeWhile p cs" "drop ?m cs = dropWhile p cs"
      by (simp_all add: takeWhile_eq_take [symmetric] dropWhile_eq_drop [symmetric])
    ultimately show ?thesis using e True Cons by simp
  qed
qed

section \<open>The bandwidth pattern\<close>

lemma lower_chr_lit [simp]:
  "lower_chr (CHR ''i'') = CHR ''i''" "lower_chr (CHR ''B'') = CHR ''b''"
  "lower_chr (CHR ''s'') = CHR ''s''"
  by code_simp+

lemma opt_cls:
  "rx_run (Opt (Cls q)) j r h =
     (case r of c # t \<Rightarrow> (if q c then [(Suc j, t, h)] else []) @ [(j, r, h)] | [] \<Rightarrow> [(j, r, h)])"
  by (simp add: Opt_def split: list.splits)

lemma size_unit_run:
  "rx_run size_unit j r h =
     (case unit_tok r of
        None \<Rightarrow> []
      | Some u \<Rightarrow> [(j + length u + 2, drop (length u + 2) r, AList.update 2 u h)])"
proof -
  show ?thesis
    apply (cases r)
     apply (simp add: size_unit_def unit_tok_def Chr_i_def Chr_def opt_cls del: rx_run.simps(6) )
    subgoal for c1 r1
      apply (cases r1)
       apply (simp add: size_unit_def unit_tok_def Chr_i_def Chr_def opt_cls)
      subgoal for c2 r2
        apply (cases r2)
         apply (simp add: size_unit_def unit_tok_def Chr_i_def Chr_def opt_cls)
        subgoal for c3 r3
          apply (cases r3)
           apply (simp add: size_unit_def unit_tok_def Chr_i_def Chr_def opt_cls)
          subgoal for c4 r4
            apply (cases r4)
             apply (simp add: size_unit_def unit_tok_def Chr_i_def Chr_def opt_cls)
            apply (simp add: size_unit_def unit_tok_def Chr_i_def Chr_def opt_cls)
            done
          done
        done
      done
    done
qed


lemma num_char_facts:
  assumes "num_char c"
  shows "lower_chr c = c" "\<not> isspace c" "c \<noteq> CHR ''k''" "c \<noteq> CHR ''m''" "c \<noteq> CHR ''g''"
    "c \<noteq> CHR ''t''" "c \<noteq> CHR ''p''" "c \<noteq> CHR ''i''" "c \<noteq> CHR ''b''"
  using assms
  by (auto simp: num_char_def is_digit_def lower_chr_def is_upper_def isspace_def code_def)

lemma isspace_facts:
  assumes "isspace c"
  shows "lower_chr c = c" "c \<noteq> CHR ''k''" "c \<noteq> CHR ''m''" "c \<noteq> CHR ''g''"
    "c \<noteq> CHR ''t''" "c \<noteq> CHR ''p''" "c \<noteq> CHR ''i''" "c \<noteq> CHR ''b''"
  using assms
  by (auto simp: lower_chr_def is_upper_def isspace_def code_def)

lemma unit_tok_num_char: "num_char c \<Longrightarrow> unit_tok (c # t) = None"
  by (simp add: unit_tok_def num_char_facts split: list.splits)

lemma unit_tok_isspace: "isspace c \<Longrightarrow> unit_tok (c # t) = None"
  by (simp add: unit_tok_def isspace_facts split: list.splits)

lemma size_pat_eq:
  "size_pat = Seq (Grp 1 (Plus (Cls num_char))) (Seq (Star (Cls isspace)) size_unit)"
  by (simp add: size_pat_def size_unit_def)

lemma space_unit_run:
  "rx_run (Seq (Star (Cls isspace)) size_unit) j r h =
     rx_run size_unit (j + length (takeWhile isspace r)) (dropWhile isspace r) h"
  by (rule seq_star_cls) (simp add: size_unit_run unit_tok_isspace)

lemma space_unit_num_char:
  "num_char c \<Longrightarrow> rx_run (Seq (Star (Cls isspace)) size_unit) j (c # t) h = []"
  by (simp only: space_unit_run) (simp add: num_char_facts size_unit_run unit_tok_num_char)

lemma size_pat_run:
  "map (\<lambda>(j, t, h). h) (rx_run size_pat i s g) =
     (if token_at s
      then [AList.update 2 (tok_unit s) (AList.update 1 (tok_number s) g)] else [])"
  by (simp only: size_pat_eq seq_grp_plus_cls [OF space_unit_num_char] space_unit_run)
     (simp add: size_unit_run token_at_def tok_unit_def tok_number_def split: option.splits)

lemma find_map_option: "find P (map f xs) = map_option f (find (\<lambda>x. P (f x)) xs)"
  by (induction xs) simp_all

lemma size_pat_search_from:
  "map_option (\<lambda>(t, j, h). h) (rx_search_from size_pat i s) =
     (case find (\<lambda>k. token_at (drop k s)) [0..<Suc (length s)] of
        None \<Rightarrow> None
      | Some k \<Rightarrow> Some [(1, tok_number (drop k s)), (2, tok_unit (drop k s))])"
proof (induction s arbitrary: i)
  case Nil
  show ?case
    using size_pat_run [of i "[]" "[]"]
    by (cases "rx_run size_pat i [] []") (auto split: if_splits)
next
  case (Cons c cs)
  have f: "find (\<lambda>k. token_at (drop k (c # cs))) [0..<Suc (Suc (length cs))] =
           (if token_at (c # cs) then Some 0
            else map_option Suc (find (\<lambda>k. token_at (drop k cs)) [0..<Suc (length cs)]))"
    by (simp only: upt_0_Suc [of "Suc (length cs)"]) (simp add: find_map_option del: upt_Suc)
  show ?case
  proof (cases "token_at (c # cs)")
    case True
    then show ?thesis
      using size_pat_run [of i "c # cs" "[]"] f
      by (cases "rx_run size_pat i (c # cs) []") (auto split: if_splits)
  next
    case False
    then have "rx_run size_pat i (c # cs) [] = []"
      using size_pat_run [of i "c # cs" "[]"] by simp
    then have "rx_search_from size_pat i (c # cs) = rx_search_from size_pat (Suc i) cs"
      by simp
    then show ?thesis
      using False f Cons.IH [of "Suc i"] by (simp del: upt_Suc split: option.splits)
  qed
qed


lemma bw_to_gbps_find:
  "bw_to_gbps s =
     (case find (\<lambda>k. token_at (drop k s)) [0..<Suc (length s)] of
        None \<Rightarrow> Inr None
      | Some k \<Rightarrow>
          (case py_float (tok_number (drop k s)) of
             Inl e \<Rightarrow> Inl e
           | Inr x \<Rightarrow> Inr (Some (x * bw_factor (lower (tok_unit (drop k s))) / GB_DEC))))"
  using size_pat_search_from [of 0 s]
  by (auto simp: bw_to_gbps_def rx_search_def group_def Let_def simp del: upt_Suc
      split: option.splits sum.splits)

lemma bw_to_gbps_None:
  "bw_to_gbps s = Inr None \<longleftrightarrow> list_all (\<lambda>k. \<not> token_at (drop k s)) [0..<Suc (length s)]"
proof -
  define ks where "ks = [0..<Suc (length s)]"
  have h: "find (\<lambda>k. token_at (drop k s)) ks = None
        \<longleftrightarrow> list_all (\<lambda>k. \<not> token_at (drop k s)) ks"
    by (simp only: find_None_iff list_all_iff) blast
  note f = bw_to_gbps_find [of s, folded ks_def]
  show ?thesis
  proof (cases "find (\<lambda>k. token_at (drop k s)) ks")
    case None
    with h f show ?thesis by (simp add: ks_def [symmetric] del: upt_Suc)
  next
    case (Some k)
    then have "bw_to_gbps s \<noteq> Inr None"
      using f by (simp split: sum.splits)
    with h Some show ?thesis by (simp add: ks_def [symmetric] del: upt_Suc)
  qed
qed

lemma find_upt_first:
  assumes "P n" "list_all (\<lambda>j. \<not> P j) [0..<n]" "n < m"
  shows "find P [0..<m] = Some n"
proof -
  have "\<exists>i<length [0..<m]. P ([0..<m] ! i) \<and> n = [0..<m] ! i \<and> (\<forall>j<i. \<not> P ([0..<m] ! j))"
    using assms by (intro exI [of _ n]) (simp add: list_all_iff)
  then show ?thesis by (simp only: find_Some_iff)
qed

lemma bw_to_gbps_first:
  assumes "token_at t" "list_all (\<lambda>k. \<not> token_at (drop k (pre @ t))) [0..<length pre]"
  shows "bw_to_gbps (pre @ t) =
           (case py_float (tok_number t) of
              Inl e \<Rightarrow> Inl e
            | Inr x \<Rightarrow> Inr (Some (x * bw_factor (lower (tok_unit t)) / GB_DEC)))"
proof -
  have F: "find (\<lambda>k. token_at (drop k (pre @ t))) [0..<Suc (length (pre @ t))] = Some (length pre)"
    using assms by (intro find_upt_first) simp_all
  have d: "drop (length pre) (pre @ t) = t" by simp
  show ?thesis
    unfolding bw_to_gbps_find [of "pre @ t"] F option.case d by (rule refl)
qed

lemma unit_tok_Some:
  assumes "unit_tok r = Some u"
  shows "\<exists>c post. r = u @ CHR ''/'' # c # post \<and> lower_chr c = CHR ''s'' \<and> unit_form u"
  using assms
  apply (cases r)
   apply (simp add: unit_tok_def)
  subgoal for c1 r1
    apply (cases r1)
     apply (simp add: unit_tok_def split: if_splits)
    subgoal for c2 r2
      apply (cases r2)
       apply (simp add: unit_tok_def split: if_splits)
      subgoal for c3 r3
        apply (cases r3)
         apply (auto simp add: unit_tok_def unit_form_def lower_def split: if_splits)[1]
        subgoal for c4 r4
          apply (cases r4)
           apply (auto simp add: unit_tok_def unit_form_def lower_def split: if_splits)[1]
          apply (auto simp add: unit_tok_def unit_form_def lower_def split: if_splits)[1]
          done
        done
      done
    done
  done

lemma unit_tok_form:
  assumes "unit_form u" "lower_chr c = CHR ''s''"
  shows "unit_tok (u @ CHR ''/'' # c # post) = Some u"
proof -
  consider a where "u = [a]" | a b where "u = [a, b]" | a b d where "u = [a, b, d]"
    using assms(1) by (auto simp: unit_form_def lower_def map_eq_Cons_conv)
  then show ?thesis
    using assms by cases (auto simp: unit_form_def lower_def unit_tok_def)
qed

lemma takeWhile_run:
  assumes "list_all p xs" "ys = [] \<or> \<not> p (hd ys)"
  shows "takeWhile p (xs @ ys) = xs" "dropWhile p (xs @ ys) = ys"
proof -
  have "takeWhile p ys = []" "dropWhile p ys = ys"
    using assms(2) by (cases ys; simp)+
  then show "takeWhile p (xs @ ys) = xs" "dropWhile p (xs @ ys) = ys"
    using assms(1) by (simp_all add: list_all_iff takeWhile_append2 dropWhile_append2)
qed

lemma unit_form_hd:
  assumes "unit_form u"
  shows "u \<noteq> []" "\<not> isspace (hd u)" "\<not> num_char (hd u)"
proof -
  from assms obtain a v where u: "u = a # v" "lower_chr a \<in> set ''kmgtpib''"
    by (auto simp: unit_form_def lower_def map_eq_Cons_conv)
  show "u \<noteq> []" using u by simp
  show "\<not> isspace (hd u)" using u isspace_facts [of a] by auto
  show "\<not> num_char (hd u)" using u num_char_facts [of a] by auto
qed

lemma token_at_form:
  assumes "num \<noteq> []" "list_all num_char num" "list_all isspace w" "unit_form u"
    "lower_chr c = CHR ''s''"
  shows "token_at (num @ w @ u @ CHR ''/'' # c # post)
         \<and> tok_number (num @ w @ u @ CHR ''/'' # c # post) = num
         \<and> tok_unit (num @ w @ u @ CHR ''/'' # c # post) = u"
proof -
  let ?r2 = "u @ CHR ''/'' # c # post"
  let ?r1 = "w @ ?r2"
  have h2: "?r2 = [] \<or> \<not> isspace (hd ?r2)"
    using unit_form_hd [OF assms(4)] by simp
  have h1: "?r1 = [] \<or> \<not> num_char (hd ?r1)"
  proof (cases w)
    case Nil
    then show ?thesis using unit_form_hd [OF assms(4)] by simp
  next
    case (Cons a v)
    then have "isspace a" using assms(3) by simp
    then have "\<not> num_char a" using num_char_facts(2) by blast
    with Cons show ?thesis by simp
  qed
  have n: "takeWhile num_char (num @ ?r1) = num" "dropWhile num_char (num @ ?r1) = ?r1"
    using takeWhile_run [OF assms(2) h1] by simp_all
  have s: "dropWhile isspace ?r1 = ?r2"
    using takeWhile_run [OF assms(3) h2] by simp
  show ?thesis
    using assms(1) unit_tok_form [OF assms(4,5), of post]
    by (simp only: token_at_def tok_number_def tok_unit_def n s) simp
qed

lemma token_at_shape:
  assumes "token_at t"
  shows "\<exists>w c post. t = tok_number t @ w @ tok_unit t @ CHR ''/'' # c # post
           \<and> tok_number t \<noteq> [] \<and> list_all num_char (tok_number t) \<and> list_all isspace w
           \<and> unit_form (tok_unit t) \<and> lower_chr c = CHR ''s''"
proof -
  let ?r1 = "dropWhile num_char t"
  let ?r2 = "dropWhile isspace ?r1"
  from assms obtain u where u: "unit_tok ?r2 = Some u" and n: "takeWhile num_char t \<noteq> []"
    by (auto simp: token_at_def)
  from unit_tok_Some [OF u] obtain c post where
    r2: "?r2 = u @ CHR ''/'' # c # post" and c: "lower_chr c = CHR ''s''" and f: "unit_form u"
    by blast
  have "t = takeWhile num_char t @ takeWhile isspace ?r1 @ ?r2"
    by simp
  then have "t = tok_number t @ takeWhile isspace ?r1 @ tok_unit t @ CHR ''/'' # c # post"
    using r2 u by (simp add: tok_number_def tok_unit_def)
  moreover have "list_all num_char (tok_number t)" "list_all isspace (takeWhile isspace ?r1)"
    by (auto simp: tok_number_def list_all_iff dest: set_takeWhileD)
  ultimately show ?thesis
    using n c f u by (auto simp: tok_number_def tok_unit_def)
qed

lemma bw_factor_table:
  "bw_factor ''kib'' = 1024" "bw_factor ''mib'' = 1024 ^ 2" "bw_factor ''gib'' = 1024 ^ 3"
  "bw_factor ''tib'' = 1024 ^ 4" "bw_factor ''kb'' = 1000" "bw_factor ''mb'' = 1000 ^ 2"
  "bw_factor ''gb'' = 1000 ^ 3" "bw_factor ''tb'' = 1000 ^ 4" "bw_factor ''b'' = 1"
  by (simp_all add: bw_factor_def startswith_def)

text \<open>
  Claim C2, amended. A bandwidth token is a non-empty run of digits and dots, white space
  (possibly none), a unit of the form \<open>[KMGTP]?i?B\<close> in any case, and \<open>/s\<close> (\<open>token_at\<close> holds
  of exactly the texts that begin with one). \<open>bw_to_gbps\<close> returns no value exactly when no
  position of the string begins a token. Otherwise it takes the leftmost token: when its
  number is a number for \<open>float\<close>, the result is the number times the factor of the unit
  divided by \<open>10^9\<close>, the factor being \<open>1024^n\<close> for KiB, MiB, GiB, TiB, \<open>1000^n\<close> for KB, MB, GB,
  TB, and 1 for a bare B; so \<open>165MiB/s\<close> gives \<open>165 * 1024^2 / 10^9\<close> and \<open>103MB/s\<close> gives 0.103.
\<close>

theorem bw_to_gbps_first_token:
  "(bw_to_gbps s = Inr None \<longleftrightarrow> list_all (\<lambda>k. \<not> token_at (drop k s)) [0..<Suc (length s)])
   \<and> (token_at t \<and> list_all (\<lambda>k. \<not> token_at (drop k (pre @ t))) [0..<length pre]
       \<longrightarrow> bw_to_gbps (pre @ t) =
             (case py_float (tok_number t) of
                Inl e \<Rightarrow> Inl e
              | Inr x \<Rightarrow> Inr (Some (x * bw_factor (lower (tok_unit t)) / GB_DEC))))
   \<and> (num \<noteq> [] \<and> list_all num_char num \<and> list_all isspace w \<and> unit_form u
       \<and> lower_chr c = CHR ''s''
       \<longrightarrow> token_at (num @ w @ u @ CHR ''/'' # c # post)
           \<and> tok_number (num @ w @ u @ CHR ''/'' # c # post) = num
           \<and> tok_unit (num @ w @ u @ CHR ''/'' # c # post) = u)
   \<and> (token_at t
       \<longrightarrow> (\<exists>w c post. t = tok_number t @ w @ tok_unit t @ CHR ''/'' # c # post
             \<and> tok_number t \<noteq> [] \<and> list_all num_char (tok_number t) \<and> list_all isspace w
             \<and> unit_form (tok_unit t) \<and> lower_chr c = CHR ''s''))
   \<and> bw_factor ''kib'' = 1024 \<and> bw_factor ''mib'' = 1024 ^ 2
   \<and> bw_factor ''gib'' = 1024 ^ 3 \<and> bw_factor ''tib'' = 1024 ^ 4
   \<and> bw_factor ''kb'' = 1000 \<and> bw_factor ''mb'' = 1000 ^ 2
   \<and> bw_factor ''gb'' = 1000 ^ 3 \<and> bw_factor ''tb'' = 1000 ^ 4
   \<and> bw_factor ''b'' = 1
   \<and> bw_to_gbps ''165MiB/s'' = Inr (Some (165 * 1024 ^ 2 / 10 ^ 9))
   \<and> bw_to_gbps ''103MB/s'' = Inr (Some (103 / 1000))"
proof -
  have e: "bw_to_gbps ''165MiB/s'' = Inr (Some (165 * 1024 ^ 2 / 10 ^ 9))"
    "bw_to_gbps ''103MB/s'' = Inr (Some (103 / 1000))"
    by code_simp+
  show ?thesis
    apply (intro conjI)
    subgoal by (rule bw_to_gbps_None)
    subgoal by (intro impI, elim conjE) (rule bw_to_gbps_first; assumption)
    subgoal by (intro impI, elim conjE) (rule token_at_form; assumption)
    subgoal by (intro impI) (erule token_at_shape)
    by (rule bw_factor_table e)+
qed

theorem bw_to_gbps_first_token_witness:
  "bw_to_gbps ''n/a'' = Inr None
   \<and> bw_to_gbps (''bw='' @ ''165MiB/s (173MB/s)'') = Inr (Some (165 * 1024 ^ 2 / GB_DEC))
   \<and> token_at (''165'' @ [] @ ''MiB'' @ CHR ''/'' # CHR ''s'' # '' (173MB/s)'')"
proof -
  note T = bw_to_gbps_first_token [of "''n/a''" "''165MiB/s (173MB/s)''" "''bw=''" "''165''" "[]"
      "''MiB''" "CHR ''s''" "'' (173MB/s)''"]
  have n: "list_all (\<lambda>k. \<not> token_at (drop k ''n/a'')) [0..<Suc (length ''n/a'')]"
    by code_simp
  have h: "token_at ''165MiB/s (173MB/s)''"
    "list_all (\<lambda>k. \<not> token_at (drop k (''bw='' @ ''165MiB/s (173MB/s)''))) [0..<length ''bw='']"
    by code_simp+
  have v: "py_float (tok_number ''165MiB/s (173MB/s)'') = Inr 165"
    "lower (tok_unit ''165MiB/s (173MB/s)'') = ''mib''"
    by code_simp+
  have f: "''165'' \<noteq> []" "list_all num_char ''165''" "list_all isspace []" "unit_form ''MiB''"
    "lower_chr (CHR ''s'') = CHR ''s''"
    by code_simp+
  have a: "bw_to_gbps ''n/a'' = Inr None"
    using T [THEN conjunct1] n by simp
  have b: "bw_to_gbps (''bw='' @ ''165MiB/s (173MB/s)'') = Inr (Some (165 * 1024 ^ 2 / GB_DEC))"
    using T [THEN conjunct2, THEN conjunct1] h T [THEN conjunct2, THEN conjunct2, THEN conjunct2,
        THEN conjunct2, THEN conjunct2, THEN conjunct1]
    by (simp add: v)
  have c: "token_at (''165'' @ [] @ ''MiB'' @ CHR ''/'' # CHR ''s'' # '' (173MB/s)'')"
    using T [THEN conjunct2, THEN conjunct2, THEN conjunct1] f by blast
  show ?thesis using a b c by blast
qed

text \<open>
  Claim C2 as it is stated has a string with no token of the eight units return no value,
  and the first token of the eight units be the one used. A bare \<open>B/s\<close> is a token for
  \<open>size_pat\<close>, with the factor 1: \<open>100B/s\<close> gives \<open>100 / 10^9\<close>, and in \<open>5B/s 10MiB/s\<close> it is the
  token \<open>5B/s\<close> that is used. A \<open>PiB/s\<close> token matches too, and falls through the chain of
  tests on the unit to the factor 1.
\<close>

theorem bw_to_gbps_first_token_counterexample:
  "bw_to_gbps ''100B/s'' = Inr (Some (100 / 10 ^ 9))
   \<and> bw_to_gbps ''5B/s 10MiB/s'' = Inr (Some (5 / 10 ^ 9))
   \<and> bw_to_gbps ''10MiB/s'' = Inr (Some (10 * 1024 ^ 2 / 10 ^ 9))
   \<and> bw_to_gbps ''5PiB/s'' = Inr (Some (5 / 10 ^ 9))"
  by code_simp

section \<open>The IOPS pattern\<close>

lemma grp_plus_cls_unfold:
  assumes "p c"
  shows "rx_run (Seq (Grp n (Plus (Cls p))) R) i (c # cs) g =
           concat (map (\<lambda>k. rx_run R (Suc i + k) (drop k cs)
                               (AList.update n (take (Suc k) (c # cs)) g))
                    (rev [0..<Suc (length (takeWhile p cs))]))"
  using assms
  by (simp add: Plus_def star_cls_run comp_def del: rx_run.simps upt_Suc
      add: rx_run.simps(1,5,8))

lemma hd_concat_map:
  assumes "F n \<noteq> []"
  shows "concat (map F (rev [0..<Suc n])) \<noteq> []"
    and "hd (concat (map F (rev [0..<Suc n]))) = hd (F n)"
  using assms by simp_all

lemma grp_opt_run:
  "rx_run (Grp 2 (Opt (Cls q))) j t h \<noteq> []
   \<and> snd (snd (hd (rx_run (Grp 2 (Opt (Cls q))) j t h))) =
       AList.update 2 (case t of c # _ \<Rightarrow> if q c then [c] else [] | [] \<Rightarrow> []) h"
  by (cases t) (simp_all add: Opt_def)

lemma space_suffix_run:
  "rx_run (Seq (Star (Cls isspace)) (Grp 2 (Opt (Cls q)))) j r h \<noteq> []
   \<and> snd (snd (hd (rx_run (Seq (Star (Cls isspace)) (Grp 2 (Opt (Cls q)))) j r h))) =
       AList.update 2 (case dropWhile isspace r of c # _ \<Rightarrow> if q c then [c] else [] | [] \<Rightarrow> []) h"
proof -
  let ?n = "length (takeWhile isspace r)"
  let ?G = "\<lambda>k. rx_run (Grp 2 (Opt (Cls q))) (j + k) (drop k r) h"
  have e: "rx_run (Seq (Star (Cls isspace)) (Grp 2 (Opt (Cls q)))) j r h =
             concat (map ?G (rev [0..<Suc ?n]))"
    by (simp add: star_cls_run comp_def del: rx_run.simps upt_Suc add: rx_run.simps(5))
  have d: "drop ?n r = dropWhile isspace r"
    by (simp add: dropWhile_eq_drop [symmetric])
  have g: "?G ?n \<noteq> []"
    "snd (snd (hd (?G ?n))) =
       AList.update 2 (case dropWhile isspace r of c # _ \<Rightarrow> if q c then [c] else [] | [] \<Rightarrow> []) h"
    using grp_opt_run [of q "j + ?n" "dropWhile isspace r" h] unfolding d by blast+
  show ?thesis
    unfolding e using hd_concat_map [of ?G ?n, OF g(1)] g(2) by simp
qed

lemma iops_pat_match:
  "rx_match iops_pat s =
     (if takeWhile num_char s = [] then None
      else Some [(1, takeWhile num_char s),
                 (2, iops_suffix (dropWhile isspace (dropWhile num_char s)))])"
proof (cases s)
  case Nil
  then show ?thesis by (simp add: rx_match_def iops_pat_def Plus_def)
next
  case (Cons c cs)
  show ?thesis
  proof (cases "num_char c")
    case False
    with Cons show ?thesis by (simp add: rx_match_def iops_pat_def Plus_def)
  next
    case True
    let ?m = "length (takeWhile num_char cs)"
    let ?R = "Seq (Star (Cls isspace)) (Grp 2 (Opt (Cls (\<lambda>c. c \<in> set ''kKmM''))))"
    let ?F = "\<lambda>k. rx_run ?R (Suc 0 + k) (drop k cs) (AList.update 1 (take (Suc k) (c # cs)) [])"
    have e: "rx_run iops_pat 0 s [] = concat (map ?F (rev [0..<Suc ?m]))"
      unfolding iops_pat_def Cons by (rule grp_plus_cls_unfold [of num_char c, OF True])
    have t: "take ?m cs = takeWhile num_char cs" "drop ?m cs = dropWhile num_char cs"
      by (simp_all add: takeWhile_eq_take [symmetric] dropWhile_eq_drop [symmetric])
    from space_suffix_run [of "\<lambda>c. c \<in> set ''kKmM''" "Suc 0 + ?m" "drop ?m cs"
        "AList.update 1 (take (Suc ?m) (c # cs)) []"]
    have f: "?F ?m \<noteq> []"
      and g: "snd (snd (hd (?F ?m))) =
          [(1, c # takeWhile num_char cs), (2, iops_suffix (dropWhile isspace (dropWhile num_char cs)))]"
      by (simp_all add: t iops_suffix_def del: rx_run.simps)
    from hd_concat_map [of ?F ?m, OF f] e
    have n: "rx_run iops_pat 0 s [] \<noteq> []"
      and h: "hd (rx_run iops_pat 0 s []) = hd (?F ?m)"
      by (simp_all del: rx_run.simps upt_Suc)
    have "rx_match iops_pat s = Some (snd (snd (hd (rx_run iops_pat 0 s []))))"
      using n by (cases "rx_run iops_pat 0 s []") (auto simp: rx_match_def)
    then have "rx_match iops_pat s =
        Some [(1, c # takeWhile num_char cs),
              (2, iops_suffix (dropWhile isspace (dropWhile num_char cs)))]"
      by (simp only: h g)
    then show ?thesis
      using True Cons by (simp del: rx_run.simps)
  qed
qed

lemma iops_to_k_leading_token:
  "iops_to_k val =
     (if takeWhile num_char (strip val) = [] then Inr None
      else (case py_float (takeWhile num_char (strip val)) of
              Inl e \<Rightarrow> Inl e
            | Inr x \<Rightarrow>
                (let suffix = lower (iops_suffix (dropWhile isspace
                                                  (dropWhile num_char (strip val))))
                 in Inr (Some ((if suffix = ''k'' then x * 1000
                                else if suffix = ''m'' then x * 1000000 else x) / 1000)))))"
  by (simp add: iops_to_k_def iops_pat_match group_def Let_def split: sum.splits)

section \<open>The summariser\<close>

lemma and_then_Inr: "and_then r f = Inr y \<longleftrightarrow> (\<exists>x. r = Inr x \<and> f x = Inr y)"
  by (cases r) (simp_all add: and_then_def)

lemma float_or_none_Inr:
  "float_or_none a f = Inr r \<Longrightarrow>
     r = (case py_float a of Inr x \<Rightarrow> Some (f x) | Inl e \<Rightarrow> None)"
  by (auto simp: float_or_none_def split: sum.splits if_splits)

lemma summarize_record_bw:
  assumes "summarize_record rec = Inr s"
  shows "\<exists>bw. (if truthy (first_available (metrics rec)
                       [''run_read_bw'', ''run_write_bw'', ''read_bw'', ''write_bw''])
                then bw_to_gbps (str_of (first_available (metrics rec)
                       [''run_read_bw'', ''run_write_bw'', ''read_bw'', ''write_bw'']))
                else Inr None) = Inr bw
          \<and> (case (bw, map_of (metrics rec) ''bw_avg'') of
                (None, Some a) \<Rightarrow> float_or_none a (\<lambda>kib_s. kib_s * 1024 / GB_DEC)
              | _ \<Rightarrow> Inr bw) = Inr (s_throughput_GBps s)
          \<and> s_bw_source s = first_available (metrics rec)
               [''run_read_bw'', ''run_write_bw'', ''read_bw'', ''write_bw'']"
proof -
  from assms obtain iodepth bw bw' ik' lat clat where
    b1: "(if truthy (first_available (metrics rec)
                [''run_read_bw'', ''run_write_bw'', ''read_bw'', ''write_bw''])
          then bw_to_gbps (str_of (first_available (metrics rec)
                [''run_read_bw'', ''run_write_bw'', ''read_bw'', ''write_bw'']))
          else Inr None) = Inr bw"
    and b2: "(case (bw, map_of (metrics rec) ''bw_avg'') of
                (None, Some a) \<Rightarrow> float_or_none a (\<lambda>kib_s. kib_s * 1024 / GB_DEC)
              | _ \<Rightarrow> Inr bw) = Inr bw'"
    and s: "s = \<lparr>s_run = run rec, s_file = filename rec, s_job_name = job_name rec,
           s_iodepth = iodepth, s_throughput_GBps = bw', s_iops_k = ik',
           s_derived_latency_ms = lat, s_clat_avg_ms = clat,
           s_bw_source = first_available (metrics rec)
                [''run_read_bw'', ''run_write_bw'', ''read_bw'', ''write_bw''],
           s_iops_source = first_available (metrics rec) [''read_iops'', ''write_iops'']\<rparr>"
    unfolding summarize_record_def Let_def and_then_Inr by (elim exE conjE) auto
  have t: "s_throughput_GBps s = bw'"
    "s_bw_source s = first_available (metrics rec)
                [''run_read_bw'', ''run_write_bw'', ''read_bw'', ''write_bw'']"
    unfolding s by (simp_all del: first_available.simps)
  show ?thesis
    unfolding t using b1 b2 by blast
qed

lemma first_available_bw:
  "first_available m [''run_read_bw'', ''run_write_bw'', ''read_bw'', ''write_bw''] =
     (case map_of m ''run_read_bw'' of Some v \<Rightarrow> Some v
      | None \<Rightarrow> (case map_of m ''run_write_bw'' of Some v \<Rightarrow> Some v
        | None \<Rightarrow> (case map_of m ''read_bw'' of Some v \<Rightarrow> Some v
          | None \<Rightarrow> map_of m ''write_bw'')))"
  by (simp split: option.splits)


text \<open>
  Claim C1 fails on the code. \<open>size_pat\<close> and \<open>iops_pat\<close> accept any run of digits and dots
  as the number, and \<open>bw_to_gbps\<close> and \<open>iops_to_k\<close> pass it to \<open>float\<close> with no handler: for
  \<open>1.2.3MiB/s\<close> and \<open>1.2.3k\<close> they raise \<open>ValueError\<close>, and the exception leaves
  \<open>summarize_record\<close>, so the whole record is lost. \<open>parse_numeric\<close> handles the same
  string and returns no value.
\<close>

theorem malformed_number_raises:
  "bw_to_gbps ''1.2.3MiB/s'' = Inl ValueError
   \<and> iops_to_k ''1.2.3k'' = Inl ValueError
   \<and> parse_numeric ''1.2.3'' = Inr None
   \<and> summarize_record \<lparr>run = 1, filename = ''a.txt'', job_name = None,
         metrics = [(''iodepth'', ''32''), (''read_bw'', ''1.2.3MiB/s''),
                    (''read_iops'', ''84.4k'')]\<rparr> = Inl ValueError
   \<and> summarize_record \<lparr>run = 1, filename = ''a.txt'', job_name = None,
         metrics = [(''iodepth'', ''32''), (''read_bw'', ''165MiB/s''),
                    (''read_iops'', ''1.2.3k'')]\<rparr> = Inl ValueError"
  by code_simp

text \<open>
  Claim C6 fails on the code at a leading token that is made of dots and digits and is not
  a number: \<open>iops_to_k\<close> raises \<open>ValueError\<close> where the claim has it return no value. For the
  rest \<open>iops_to_k_leading_token\<close> gives what the code does: a stripped string that does not
  begin with a digit or a dot gives no value; otherwise the leading run of digits and dots
  is the number, multiplied by 1000 or 1000000 for a suffix k or m (in either case, white
  space allowed before it) and divided by 1000.
\<close>

theorem iops_to_k_dot_raises:
  "iops_to_k ''.'' = Inl ValueError \<and> iops_to_k ''..5k'' = Inl ValueError
   \<and> iops_to_k ''84.4k'' = Inr (Some (844 / 10))
   \<and> iops_to_k ''50221.53'' = Inr (Some (5022153 / 100000))
   \<and> iops_to_k ''n/a'' = Inr None"
  by code_simp



text \<open>
  Claim C3, amended. Of \<open>run_read_bw\<close>, \<open>run_write_bw\<close>, \<open>read_bw\<close>, \<open>write_bw\<close> the summariser
  takes the first that is present in the record, and no other. When that field is not empty
  and the bandwidth rule gives a value for it, the value is the throughput. When none of
  the four is present, or the first present one is empty or has no value under the
  bandwidth rule, the throughput is \<open>bw_avg\<close> read as KiB/s (times 1024, divided by \<open>10^9\<close>)
  if \<open>bw_avg\<close> is present and a number, and absent otherwise.
\<close>

theorem bandwidth_resolution:
  assumes "summarize_record rec = Inr s"
  shows "s_bw_source s
           = first_available (metrics rec) [''run_read_bw'', ''run_write_bw'', ''read_bw'', ''write_bw'']
       \<and> s_bw_source s
           = (case map_of (metrics rec) ''run_read_bw'' of Some v \<Rightarrow> Some v
              | None \<Rightarrow> (case map_of (metrics rec) ''run_write_bw'' of Some v \<Rightarrow> Some v
                | None \<Rightarrow> (case map_of (metrics rec) ''read_bw'' of Some v \<Rightarrow> Some v
                  | None \<Rightarrow> map_of (metrics rec) ''write_bw'')))
       \<and> (s_bw_source s = Some x \<and> x \<noteq> [] \<and> bw_to_gbps x = Inr (Some y)
            \<longrightarrow> s_throughput_GBps s = Some y)
       \<and> (s_bw_source s = None \<or> s_bw_source s = Some []
            \<or> (s_bw_source s = Some x \<and> bw_to_gbps x = Inr None)
            \<longrightarrow> s_throughput_GBps s =
                  (case map_of (metrics rec) ''bw_avg'' of
                     None \<Rightarrow> None
                   | Some a \<Rightarrow> (case py_float a of
                                  Inr kib_s \<Rightarrow> Some (kib_s * 1024 / GB_DEC)
                                | Inl e \<Rightarrow> None)))"
proof -
  from summarize_record_bw [OF assms] obtain bw where
    b1: "(if truthy (s_bw_source s) then bw_to_gbps (str_of (s_bw_source s)) else Inr None)
         = Inr bw"
    and b2: "(case (bw, map_of (metrics rec) ''bw_avg'') of
                (None, Some a) \<Rightarrow> float_or_none a (\<lambda>kib_s. kib_s * 1024 / GB_DEC)
              | _ \<Rightarrow> Inr bw) = Inr (s_throughput_GBps s)"
    and src: "s_bw_source s = first_available (metrics rec)
               [''run_read_bw'', ''run_write_bw'', ''read_bw'', ''write_bw'']"
    by metis
  have used: "s_throughput_GBps s = Some y"
    if "s_bw_source s = Some x" "x \<noteq> []" "bw_to_gbps x = Inr (Some y)"
    using that b1 b2 by (auto simp: truthy_def str_of_def)
  have fallback: "s_throughput_GBps s =
                  (case map_of (metrics rec) ''bw_avg'' of
                     None \<Rightarrow> None
                   | Some a \<Rightarrow> (case py_float a of
                                  Inr kib_s \<Rightarrow> Some (kib_s * 1024 / GB_DEC)
                                | Inl e \<Rightarrow> None))"
    if "s_bw_source s = None \<or> s_bw_source s = Some []
            \<or> (s_bw_source s = Some x \<and> bw_to_gbps x = Inr None)"
  proof -
    from that b1 have "bw = None"
      by (auto simp: truthy_def str_of_def split: if_splits)
    with b2 show ?thesis
      by (auto split: option.splits dest: float_or_none_Inr)
  qed
  show ?thesis
    using src used fallback first_available_bw [of "metrics rec"] by (simp del: first_available.simps)
qed

theorem bandwidth_resolution_witness:
  "s_throughput_GBps \<lparr>s_run = 1, s_file = ''a.txt'', s_job_name = None, s_iodepth = None,
       s_throughput_GBps = Some (2048 * 1024 / GB_DEC), s_iops_k = None,
       s_derived_latency_ms = None, s_clat_avg_ms = None, s_bw_source = Some ''n/a'',
       s_iops_source = None\<rparr> = Some (2048 * 1024 / GB_DEC)
   \<and> py_float ''2048'' = Inr 2048
   \<and> bw_to_gbps ''n/a'' = Inr None"
proof -
  let ?rec = "\<lparr>run = 1, filename = ''a.txt'', job_name = None,
         metrics = [(''run_read_bw'', ''n/a''), (''read_bw'', ''100MiB/s''),
                    (''bw_avg'', ''2048'')]\<rparr>"
  let ?s = "\<lparr>s_run = 1, s_file = ''a.txt'', s_job_name = None, s_iodepth = None,
       s_throughput_GBps = Some (2048 * 1024 / GB_DEC), s_iops_k = None,
       s_derived_latency_ms = None, s_clat_avg_ms = None, s_bw_source = Some ''n/a'',
       s_iops_source = None\<rparr>"
  have h: "summarize_record ?rec = Inr ?s"
    by code_simp
  have f: "py_float ''2048'' = Inr 2048" "bw_to_gbps ''n/a'' = Inr None"
    by code_simp+
  show ?thesis
    using bandwidth_resolution [OF h, of "''n/a''" 0] f by simp
qed

text \<open>
  Claim C3 as it is stated has the summariser pass over a field that is present and does
  not parse, and use a later one. It does not: with \<open>run_read_bw = n/a\<close> and
  \<open>read_bw = 100MiB/s\<close> the source is \<open>n/a\<close> and there is no throughput.
\<close>

theorem bandwidth_resolution_counterexample:
  "bw_to_gbps ''n/a'' = Inr None
   \<and> bw_to_gbps ''100MiB/s'' = Inr (Some (100 * 1024 ^ 2 / 10 ^ 9))
   \<and> summarize_record \<lparr>run = 1, filename = ''a.txt'', job_name = None,
         metrics = [(''run_read_bw'', ''n/a''), (''read_bw'', ''100MiB/s'')]\<rparr>
       = Inr \<lparr>s_run = 1, s_file = ''a.txt'', s_job_name = None, s_iodepth = None,
              s_throughput_GBps = None, s_iops_k = None, s_derived_latency_ms = None,
              s_clat_avg_ms = None, s_bw_source = Some ''n/a'', s_iops_source = None\<rparr>"
  by code_simp

section \<open>The extractor: the rule for iops lines\<close>

lemma foldl_emit_kv:
  "foldl (emit_kv prefix) out_list ms =
     out_list @ map (\<lambda>m. emit_line (prefix @ normalize_key (group m 1))
                          (strip (strip (group m 2)))) ms"
  by (induction ms arbitrary: out_list) (simp_all add: emit_kv_def emit_def Let_def)

lemma startswith_emit_line: "startswith (emit_line (prefix @ k) v) prefix"
  by (simp add: emit_line_def startswith_def split: option.splits)

lemma list_all_emit_line:
  "list_all (\<lambda>l. startswith l prefix) (map (\<lambda>m. emit_line (prefix @ kf m) (vf m)) ms)"
  by (induction ms) (simp_all add: startswith_emit_line)

lemma kv_rule_out:
  assumes "after_colon sline = Inr rest"
  shows "kv_rule st sline prefix =
           Inr (st\<lparr>out := out st @ map (\<lambda>m. emit_line (prefix @ normalize_key (group m 1))
                                              (strip (strip (group m 2))))
                                      (rx_finditer re_kv rest)\<rparr>)"
  using assms by (simp add: kv_rule_def and_then_def parse_kv_list_def foldl_emit_kv)

lemma parse_line_not_earlier:
  assumes "\<not> earlier_rule st (strip (rstrip_chr (CHR 0x0A) raw))"
  shows "parse_line st raw =
           (if startswith (strip (rstrip_chr (CHR 0x0A) raw)) ''iops''
               \<and> contains (strip (rstrip_chr (CHR 0x0A) raw)) ''iops''
            then kv_rule st (strip (rstrip_chr (CHR 0x0A) raw)) ''iops_''
            else later_rules st (strip (rstrip_chr (CHR 0x0A) raw)))"
  using assms
  by (auto simp add: parse_line_def kv_rules_def earlier_rule_def Let_def)

lemma startswith_contains: "startswith s p \<Longrightarrow> contains s p"
  by (cases s) (simp_all add: startswith_def)

text \<open>
  Claim C7, amended. A line that none of the rules before the test for \<open>iops\<close> takes, and
  whose stripped text starts with \<open>iops\<close> and has a colon, has the key=value pairs of the
  text after its first colon emitted, each under a key with the prefix \<open>iops_\<close>. A line
  that does not start with \<open>iops\<close> is left to the rules that follow, whether or not it
  contains \<open>iops\<close>.
\<close>

theorem iops_rule:
  assumes "\<not> earlier_rule st (strip (rstrip_chr (CHR 0x0A) raw))"
  shows "(startswith (strip (rstrip_chr (CHR 0x0A) raw)) ''iops''
          \<and> after_colon (strip (rstrip_chr (CHR 0x0A) raw)) = Inr rest
          \<longrightarrow> (\<exists>new. parse_line st raw = Inr (st\<lparr>out := out st @ new\<rparr>)
                \<and> new = map (\<lambda>m. emit_line (''iops_'' @ normalize_key (group m 1))
                                    (strip (strip (group m 2))))
                          (rx_finditer re_kv rest)
                \<and> list_all (\<lambda>l. startswith l ''iops_'') new))
       \<and> (\<not> startswith (strip (rstrip_chr (CHR 0x0A) raw)) ''iops''
          \<longrightarrow> parse_line st raw = later_rules st (strip (rstrip_chr (CHR 0x0A) raw)))"
proof (intro conjI impI)
  assume a: "startswith (strip (rstrip_chr (CHR 0x0A) raw)) ''iops''
          \<and> after_colon (strip (rstrip_chr (CHR 0x0A) raw)) = Inr rest"
  let ?new = "map (\<lambda>m. emit_line (''iops_'' @ normalize_key (group m 1))
                                    (strip (strip (group m 2))))
                          (rx_finditer re_kv rest)"
  have "parse_line st raw = kv_rule st (strip (rstrip_chr (CHR 0x0A) raw)) ''iops_''"
    using a startswith_contains parse_line_not_earlier [OF assms] by simp
  then have p: "parse_line st raw = Inr (st\<lparr>out := out st @ ?new\<rparr>)"
    using a kv_rule_out by simp
  have "list_all (\<lambda>l. startswith l ''iops_'') ?new"
    by (rule list_all_emit_line)
  with p show "\<exists>new. parse_line st raw = Inr (st\<lparr>out := out st @ new\<rparr>)
                \<and> new = ?new \<and> list_all (\<lambda>l. startswith l ''iops_'') new"
    by blast
next
  assume "\<not> startswith (strip (rstrip_chr (CHR 0x0A) raw)) ''iops''"
  then show "parse_line st raw = later_rules st (strip (rstrip_chr (CHR 0x0A) raw))"
    using parse_line_not_earlier [OF assms] by simp
qed

theorem iops_rule_witness:
  "parse_line \<lparr>out = [], pct_mode = None, disk_section = False\<rparr>
      (''   iops        : min=36, avg=84.40'' @ [CHR 0x0A])
   = Inr \<lparr>out = [''iops_min = 36'' @ [CHR 0x09] @ ''# iops sample min'',
                 ''iops_avg = 84.40'' @ [CHR 0x09] @ ''# iops sample avg''],
          pct_mode = None, disk_section = False\<rparr>"
proof -
  let ?st = "\<lparr>out = [], pct_mode = None, disk_section = False\<rparr>"
  let ?raw = "''   iops        : min=36, avg=84.40'' @ [CHR 0x0A]"
  have s: "strip (rstrip_chr (CHR 0x0A) ?raw) = ''iops        : min=36, avg=84.40''"
    by code_simp
  have h: "\<not> earlier_rule ?st (strip (rstrip_chr (CHR 0x0A) ?raw))"
    unfolding s by code_simp
  have a: "startswith ''iops        : min=36, avg=84.40'' ''iops''"
    "after_colon ''iops        : min=36, avg=84.40'' = Inr '' min=36, avg=84.40''"
    by code_simp+
  have m: "map (\<lambda>m. emit_line (''iops_'' @ normalize_key (group m 1))
                                    (strip (strip (group m 2))))
                          (rx_finditer re_kv '' min=36, avg=84.40'')
           = [''iops_min = 36'' @ [CHR 0x09] @ ''# iops sample min'',
                 ''iops_avg = 84.40'' @ [CHR 0x09] @ ''# iops sample avg'']"
    by code_simp
  show ?thesis
    using iops_rule [OF h, of "'' min=36, avg=84.40''"] a m unfolding s by simp
qed

text \<open>
  Claim C7 as it is stated applies the rule to every line that contains \<open>iops\<close>. The line
  \<open>total iops: min=1\<close> reaches the test and contains \<open>iops\<close>, but does not start with it:
  the fallback emits its pair under the key \<open>min\<close>.
\<close>

theorem iops_rule_counterexample:
  "\<not> earlier_rule \<lparr>out = [], pct_mode = None, disk_section = False\<rparr> ''total iops: min=1''
   \<and> strip (rstrip_chr (CHR 0x0A) ''total iops: min=1'') = ''total iops: min=1''
   \<and> contains ''total iops: min=1'' ''iops''
   \<and> after_colon ''total iops: min=1'' = Inr '' min=1''
   \<and> parse_line \<lparr>out = [], pct_mode = None, disk_section = False\<rparr> ''total iops: min=1''
       = Inr \<lparr>out = [''min = 1''], pct_mode = None, disk_section = False\<rparr>
   \<and> \<not> startswith ''min = 1'' ''iops_''"
  by code_simp

section \<open>From the extractor to the splitter and back\<close>

lemma strip_fixed_ends:
  assumes "strip s = s"
  shows "s = [] \<or> (\<not> isspace (hd s) \<and> \<not> isspace (last s))"
proof (cases "s = []")
  case False
  have le: "length (strip s) \<le> length (dropWhile isspace s)"
    unfolding strip_def lstrip_def rstrip_def
    using length_dropWhile_le [of isspace "rev (dropWhile isspace s)"] by simp
  have l: "dropWhile isspace s = s"
  proof (rule ccontr)
    assume "dropWhile isspace s \<noteq> s"
    then have "isspace (hd s)" using False by (simp add: dropWhile_eq_self_iff)
    then have "length (dropWhile isspace s) < length s"
      using False by (cases s) (auto simp: less_Suc_eq_le length_dropWhile_le)
    with le assms show False by simp
  qed
  with assms have "rev (dropWhile isspace (rev s)) = s"
    by (simp add: strip_def lstrip_def rstrip_def)
  then have "dropWhile isspace (rev s) = rev s" by (metis rev_rev_ident)
  then have "\<not> isspace (hd (rev s))" using False by (simp add: dropWhile_eq_self_iff)
  with l False show ?thesis by (simp add: dropWhile_eq_self_iff hd_rev)
qed simp

lemma strip_wrap:
  assumes s: "s = [] \<or> (\<not> isspace (hd s) \<and> \<not> isspace (last s))"
    and a: "\<forall>c \<in> set a. isspace c" and b: "\<forall>c \<in> set b. isspace c"
  shows "strip (a @ s @ b) = s"
proof (cases "s = []")
  case True
  have "\<forall>c \<in> set (a @ b). isspace c" using a b by auto
  then have "dropWhile isspace (a @ b) = []" by (simp only: dropWhile_eq_Nil_conv)
  with True show ?thesis
    by (simp only: strip_def lstrip_def rstrip_def append_Nil rev.simps dropWhile.simps)
next
  case False
  then obtain c cs where c: "s = c # cs" by (cases s) auto
  with s have "\<not> isspace c" by simp
  then have l: "dropWhile isspace (a @ s @ b) = s @ b"
    using a c by (simp add: dropWhile_append2)
  have "\<not> isspace (hd (rev s))" using s False by (simp add: hd_rev)
  then have r: "dropWhile isspace (rev s) = rev s" by (simp only: dropWhile_eq_self_iff simp_thms)
  have "dropWhile isspace (rev b @ rev s) = dropWhile isspace (rev s)"
    by (rule dropWhile_append2) (use b in auto)
  with r l show ?thesis by (simp add: strip_def lstrip_def rstrip_def)
qed

lemma rstrip_keep: "\<not> isspace c \<Longrightarrow> rstrip (a @ c # b) = a @ c # rstrip b"
  by (simp add: rstrip_def dropWhile_append3)

lemma isspace_chr [simp]: "isspace (CHR '' '')" "isspace (CHR 0x09)" "\<not> isspace (CHR ''#'')"
  "\<not> isspace (CHR ''='')"
  by (simp_all add: isspace_def)

lemma split1_at:
  "c \<notin> set a \<Longrightarrow> split1 c (a @ c # b) = [a, b]"
  by (induction a) (auto simp: split1_def)

lemma parse_key_val_plain:
  assumes k: "CHR ''='' \<notin> set k" "strip k = k" and v: "CHR ''#'' \<notin> set v" "strip v = v"
  shows "parse_key_val (k @ '' = '' @ v) = Some (k, v)"
proof -
  have sp: "split1 (CHR ''='') (k @ '' = '' @ v) = [k @ '' '', '' '' @ v]"
    using split1_at [of "CHR ''=''" "k @ '' ''" "'' '' @ v"] k(1) by simp
  have sk: "strip (k @ '' '') = k"
    using strip_wrap [of k "[]" "'' ''"] strip_fixed_ends [OF k(2)] by simp
  have sv: "strip ('' '' @ v) = v"
    using strip_wrap [of v "'' ''" "[]"] strip_fixed_ends [OF v(2)] by simp
  show ?thesis
    using sp sk sv v(1) by (simp add: parse_key_val_def Let_def)
qed

lemma parse_key_val_described:
  assumes k: "CHR ''='' \<notin> set k" "strip k = k" and v: "CHR ''#'' \<notin> set v" "strip v = v"
  shows "parse_key_val (k @ '' = '' @ v @ [CHR 0x09] @ ''# '' @ d) = Some (k, v)"
proof -
  let ?line = "k @ '' = '' @ v @ [CHR 0x09] @ ''# '' @ d"
  let ?b = "'' '' @ v @ [CHR 0x09] @ ''# '' @ d"
  have sp: "split1 (CHR ''='') ?line = [k @ '' '', ?b]"
    using split1_at [of "CHR ''=''" "k @ '' ''" ?b] k(1) by simp
  have sk: "strip (k @ '' '') = k"
    using strip_wrap [of k "[]" "'' ''"] strip_fixed_ends [OF k(2)] by simp
  define w where "w = (if v = [] then [] else [CHR 0x09])"
  have l: "lstrip ?b = v @ w @ CHR ''#'' # '' '' @ d"
    using strip_fixed_ends [OF v(2)] by (cases v) (auto simp: lstrip_def w_def)
  have val: "strip ?b = (v @ w) @ CHR ''#'' # rstrip ('' '' @ d)"
    unfolding strip_def l using rstrip_keep [of "CHR ''#''" "v @ w" "'' '' @ d"] by simp
  have nh: "CHR ''#'' \<notin> set (v @ w)" using v(1) by (simp add: w_def)
  have h: "split1 (CHR ''#'') (strip ?b) = [v @ w, rstrip ('' '' @ d)]"
    unfolding val by (rule split1_at [OF nh])
  have sv: "strip (v @ w) = v"
    using strip_wrap [of v "[]" w] strip_fixed_ends [OF v(2)] by (simp add: w_def)
  have "CHR ''#'' \<in> set (strip ?b)" unfolding val by simp
  then show ?thesis
    using sp sk h sv by (simp add: parse_key_val_def Let_def)
qed

text \<open>
  Claim C10, amended. For a key \<open>k\<close> without \<open>=\<close> and a value \<open>v\<close> without \<open>#\<close>, neither of
  them changed by stripping, the line that \<open>emit\<close> appends for \<open>(k, v)\<close> is parsed by
  \<open>parse_key_val\<close> to \<open>(k, v)\<close> again, with or without a description (whatever the
  description is).
\<close>

theorem emit_parse_round_trip:
  assumes "CHR ''='' \<notin> set k" and "strip k = k" and "CHR ''#'' \<notin> set v" and "strip v = v"
  shows "emit out_list k v = out_list @ [emit_line k v]
         \<and> parse_key_val (emit_line k v) = Some (k, v)
         \<and> parse_key_val (k @ '' = '' @ v) = Some (k, v)
         \<and> parse_key_val (k @ '' = '' @ v @ [CHR 0x09] @ ''# '' @ desc) = Some (k, v)"
  using parse_key_val_plain [OF assms] parse_key_val_described [OF assms]
  by (simp add: emit_def emit_line_def split: option.splits)

theorem emit_parse_round_trip_witness:
  "emit [] ''read_iops'' ''84.4k'' = [''read_iops = 84.4k'' @ [CHR 0x09] @ ''# read IOPS (fio)'']
   \<and> parse_key_val (''read_iops = 84.4k'' @ [CHR 0x09] @ ''# read IOPS (fio)'')
       = Some (''read_iops'', ''84.4k'')
   \<and> parse_key_val ''read_iops = 84.4k'' = Some (''read_iops'', ''84.4k'')"
proof -
  have h: "CHR ''='' \<notin> set ''read_iops''" "strip ''read_iops'' = ''read_iops''"
    "CHR ''#'' \<notin> set ''84.4k''" "strip ''84.4k'' = ''84.4k''"
    by code_simp+
  have e: "emit_line ''read_iops'' ''84.4k''
           = ''read_iops = 84.4k'' @ [CHR 0x09] @ ''# read IOPS (fio)''"
    by code_simp
  show ?thesis
    using emit_parse_round_trip [OF h, of "[]" "''read IOPS (fio)''"] e by simp
qed

text \<open>
  Claim C10 as it is stated puts no condition on \<open>=\<close> in the key. \<open>parse_key_val\<close> splits
  the line at its first \<open>=\<close>, so the key \<open>a=b\<close> does not come back.
\<close>

theorem emit_parse_round_trip_counterexample:
  "CHR ''#'' \<notin> set ''1'' \<and> strip ''a=b'' = ''a=b'' \<and> strip ''1'' = ''1''
   \<and> emit [] ''a=b'' ''1'' = [''a=b = 1'']
   \<and> parse_key_val ''a=b = 1'' = Some (''a'', ''b = 1'')
   \<and> parse_key_val ''a=b = 1'' \<noteq> Some (''a=b'', ''1'')"
  by code_simp

section \<open>Key normalisation is idempotent\<close>

lemma normalize_key_chars: "\<forall>c \<in> set (normalize_key k). normal_char c"
  by (auto simp: normalize_key_def Let_def lower_def normal_char_lower)

lemma replace_chr_absent: "c \<notin> set s \<Longrightarrow> replace_chr c r s = s"
  by (induction s) (auto simp: replace_chr_def)

lemma sub_runs_absent: "\<forall>c \<in> set s. \<not> p c \<Longrightarrow> sub_runs p r s = s"
  by (induction s) auto

lemma strip_normal:
  assumes "\<forall>c \<in> set s. \<not> isspace c"
  shows "strip s = s"
proof -
  have l: "dropWhile isspace s = s"
    using assms by (cases s) auto
  have "dropWhile isspace (rev s) = rev s"
    using assms by (metis dropWhile_eq_self_iff hd_in_set set_rev)
  with l show ?thesis by (simp add: strip_def lstrip_def rstrip_def)
qed

lemma normalize_key_fixed:
  assumes n: "\<forall>c \<in> set k. normal_char c"
  shows "normalize_key k = k"
proof -
  have s: "strip k = k"
    using n by (intro strip_normal) (auto dest: normal_char_not_others)
  have r1: "replace_chr (CHR ''('') [] k = k" and r2: "replace_chr (CHR '')'') [] k = k"
    and r3: "replace_chr (CHR ''%'') ''pct'' k = k" and r4: "replace_chr (CHR ''/'') ''_'' k = k"
    using n by (auto intro!: replace_chr_absent dest: normal_char_not_others)
  have r5: "sub_runs (\<lambda>c. isspace c \<or> c = CHR '':'') ''_'' k = k"
    using n by (intro sub_runs_absent) (auto dest: normal_char_not_others)
  have r6: "filter key_char k = k"
    using n by (auto simp: filter_id_conv dest: normal_char_not_others)
  have r7: "lower k = k"
    unfolding lower_def using n by (auto intro!: map_idI dest: normal_char_not_others)
  show ?thesis
    by (simp add: normalize_key_def Let_def s r1 r2 r3 r4 r5 r6 r7)
qed

text \<open>
  Claim C9. Key normalisation is idempotent: normalising a normalised key changes nothing,
  and a string that is already in normalised form (only characters of \<open>[a-z0-9_.-]\<close>, which
  leaves no room for capitals or surrounding white space) is returned as it is.
\<close>

theorem normalize_key_idempotent:
  "normalize_key (normalize_key k) = normalize_key k
   \<and> ((\<forall>c \<in> set k'. normal_char c) \<longrightarrow> normalize_key k' = k')"
  using normalize_key_fixed [OF normalize_key_chars] normalize_key_fixed by blast

theorem normalize_key_idempotent_witness:
  "normalize_key (normalize_key ''IO depths (%)'') = normalize_key ''IO depths (%)''
   \<and> normalize_key ''IO depths (%)'' = ''io_depths_pct''
   \<and> normalize_key ''read_iops'' = ''read_iops''"
proof -
  have h: "\<forall>c \<in> set ''read_iops''. normal_char c"
    by (simp add: normal_char_def is_lower_def is_digit_def code_def)
  have e: "normalize_key ''IO depths (%)'' = ''io_depths_pct''"
    by code_simp
  show ?thesis
    using h e normalize_key_idempotent [of "''IO depths (%)''" "''read_iops''"] by simp
qed

end
